theory Spec2Isabelle
  imports Main
begin

section \<open>Server supervision of the Open WebUI desktop shell\<close>

text \<open>
  The development embeds the server lifecycle code of the main process
  (\<^verbatim>\<open>portInUse\<close>, \<^verbatim>\<open>startServer\<close>, \<^verbatim>\<open>stopAllServers\<close>,
  \<^verbatim>\<open>terminateProcessTree\<close>, \<^verbatim>\<open>terminateWindows\<close>, \<^verbatim>\<open>terminateUnix\<close>,
  \<^verbatim>\<open>isProcessRunning\<close>, \<^verbatim>\<open>sleep\<close>, \<^verbatim>\<open>getServerLog\<close>, \<^verbatim>\<open>getServerPIDs\<close>) and
  the two handlers of \<^verbatim>\<open>index.ts\<close> that drive it.

  The code talks to the operating system (signals, \<^verbatim>\<open>taskkill\<close>, sockets,
  \<^verbatim>\<open>spawn\<close>, timers). The operating system is a parameter of the model: an
  abstract state \<open>'os\<close> and a record of operations on it. Every call the code
  makes is also appended to a trace, so that the order of the calls can be
  stated. Module-level variables (\<^verbatim>\<open>serverPIDs\<close>, \<^verbatim>\<open>serverLogs\<close>) are fields of
  an explicit state that every function takes and returns.
\<close>

subsection \<open>Strings\<close>

text \<open>Decimal rendering of numbers, as template literals and \<^verbatim>\<open>toString\<close> do.\<close>

definition digit_char :: "nat \<Rightarrow> char" where
  "digit_char d = ''0123456789'' ! d"

fun show_nat :: "nat \<Rightarrow> string" where
  "show_nat n =
     (if 10 \<le> n then show_nat (n div 10) @ [digit_char (n mod 10)] else [digit_char n])"

declare show_nat.simps [simp del]

definition show_int :: "int \<Rightarrow> string" where
  "show_int i = (if 0 \<le> i then show_nat (nat i) else CHR ''-'' # show_nat (nat (- i)))"

text \<open>\<^verbatim>\<open>String.prototype.trim\<close> on the ASCII white space characters.\<close>

definition is_space :: "char \<Rightarrow> bool" where
  "is_space c \<longleftrightarrow> c \<in> set [CHR '' '', CHR 0x09, CHR 0x0A, CHR 0x0B, CHR 0x0C, CHR 0x0D]"

definition trim :: "string \<Rightarrow> string" where
  "trim s = rev (dropWhile is_space (rev (dropWhile is_space s)))"

subsection \<open>The operating system as a parameter\<close>

type_synonym pid = nat

datatype signal = SIGTERM | SIGKILL

datatype platform = Win32 | NotWin32

text \<open>The first event a probing socket emits: \<^verbatim>\<open>connect\<close>, \<^verbatim>\<open>timeout\<close> or
  \<^verbatim>\<open>error\<close> with its \<^verbatim>\<open>err.code\<close>.\<close>

datatype sock_event = Connected | TimedOut | Failed string

text \<open>Events of a spawned child process, addressed to the child handle that
  \<^verbatim>\<open>startServer\<close> registered its listeners on (the handle is the index of the
  spawn). \<open>Close\<close> carries the exit code and the signal, \<^verbatim>\<open>null\<close> being
  \<open>None\<close>.\<close>

datatype child_event =
    Stdout nat string
  | Stderr nat string
  | Close nat "int option" "string option"
  | ChildError nat string

text \<open>
  \<^item> \<open>process_kill s target sig\<close>: \<^verbatim>\<open>process.kill(target, sig)\<close>; \<open>False\<close> when it
    throws.
  \<^item> \<open>kill0 s pid\<close>: \<^verbatim>\<open>process.kill(pid, 0)\<close> returns without throwing.
  \<^item> \<open>execSync s cmd\<close>: \<^verbatim>\<open>execSync(cmd, ...)\<close>; \<open>False\<close> when it throws (non-zero
    exit status or timeout).
  \<^item> \<open>timer s ms\<close>: the main flow waits on \<^verbatim>\<open>setTimeout(ms)\<close>; the child events the
    event loop delivers meanwhile.
  \<^item> \<open>connect s port host ms\<close>: a socket with idle timeout \<open>ms\<close> connects to
    \<open>(host, port)\<close>, a port from 0 to 65535; its first event, and the child
    events delivered meanwhile.
  \<^item> \<open>badPortMessage port\<close>: the message of the \<^verbatim>\<open>RangeError\<close> (code
    \<^verbatim>\<open>ERR_SOCKET_BAD_PORT\<close>) that \<^verbatim>\<open>net.Socket.connect\<close> throws for a number that
    is not a port.
  \<^item> \<open>spawn s exe args\<close>: \<^verbatim>\<open>spawn(exe, args, ...)\<close>; the \<^verbatim>\<open>pid\<close> of the child
    handle, \<open>None\<close> for \<^verbatim>\<open>undefined\<close>.
  \<^item> \<open>pythonInstalled\<close>, \<open>packageInstalled\<close>: what \<^verbatim>\<open>isPythonInstalled()\<close> and
    \<^verbatim>\<open>isPackageInstalled("open-webui")\<close> return.
  \<^item> \<open>prepareEnv\<close>: lines 728 to 735 of \<^verbatim>\<open>startServer\<close> (data directory,
    secret key, \<^verbatim>\<open>process.env\<close>): file system calls only; \<open>Some msg\<close> when
    one of them throws.
  \<^item> \<open>readConfig\<close>: \<^verbatim>\<open>await getConfig()\<close>: the values of
    \<^verbatim>\<open>CONFIG?.serveOnLocalNetwork\<close> and \<^verbatim>\<open>CONFIG?.port\<close>, or the error thrown (as a
    template literal renders it), and the child events delivered meanwhile.
\<close>

datatype port_arg = PNull | PUndefined | PNum int

record config =
  serveOnLocalNetwork :: "bool option"
  port :: "port_arg"

record 'os os_ops =
  platform :: platform
  pythonPath :: string
  process_kill :: "'os \<Rightarrow> int \<Rightarrow> signal \<Rightarrow> bool \<times> 'os"
  kill0 :: "'os \<Rightarrow> pid \<Rightarrow> bool"
  execSync :: "'os \<Rightarrow> string \<Rightarrow> bool \<times> 'os"
  timer :: "'os \<Rightarrow> nat \<Rightarrow> child_event list \<times> 'os"
  connect :: "'os \<Rightarrow> int \<Rightarrow> string \<Rightarrow> nat \<Rightarrow> sock_event \<times> child_event list \<times> 'os"
  badPortMessage :: "int \<Rightarrow> string"
  spawn :: "'os \<Rightarrow> string \<Rightarrow> string list \<Rightarrow> pid option \<times> 'os"
  pythonInstalled :: "'os \<Rightarrow> bool"
  packageInstalled :: "'os \<Rightarrow> bool"
  prepareEnv :: "'os \<Rightarrow> string option \<times> 'os"
  readConfig :: "'os \<Rightarrow> (string + config) \<times> child_event list \<times> 'os"

subsection \<open>The state of the module\<close>

datatype level = Info | Warn | Error

datatype action =
    AExec string bool
  | AKill int signal bool
  | AProbe pid bool
  | ASleep nat
  | AConnect int string bool
  | ASpawn string "string list" "pid option"
  | ACloseEvent pid
  | ALog level string
  | AServerLog level string
  | ASend string string
  | ATray string

text \<open>
  \<^item> \<open>serverPIDs\<close>: the set of numbers of the same name, as the list of its
    elements in insertion order (what \<^verbatim>\<open>Array.from\<close> returns).
  \<^item> \<open>serverLogs\<close>: the map of the same name. Its values are references to
    \<^verbatim>\<open>logLines\<close> arrays, which the listeners of the child also hold; a
    reference is the index of the spawn that allocated the array.
  \<^item> \<open>arrays\<close>: the contents of the \<^verbatim>\<open>logLines\<close> arrays.
  \<^item> \<open>handles\<close>: \<^verbatim>\<open>childProcess.pid\<close> of every child handle that got its
    listeners, in spawn order.
  \<^item> \<open>os\<close>: the state of the operating system; \<open>trace\<close>: the calls made so far.
\<close>

record 'os world =
  serverPIDs :: "pid list"
  serverLogs :: "pid \<rightharpoonup> nat"
  arrays :: "nat \<Rightarrow> string list"
  handles :: "pid list"
  os :: 'os
  trace :: "action list"

definition emit :: "action \<Rightarrow> 'os world \<Rightarrow> 'os world" where
  "emit a w = w\<lparr>trace := trace w @ [a]\<rparr>"

definition logmsg :: "level \<Rightarrow> string \<Rightarrow> 'os world \<Rightarrow> 'os world" where
  "logmsg l s w = emit (ALog l s) w"

definition getServerPIDs :: "'os world \<Rightarrow> pid list" where
  "getServerPIDs w = serverPIDs w"

text \<open>\<^verbatim>\<open>Set.prototype.add\<close> and \<^verbatim>\<open>Set.prototype.delete\<close>.\<close>

definition set_add :: "pid \<Rightarrow> pid list \<Rightarrow> pid list" where
  "set_add p ps = (if p \<in> set ps then ps else ps @ [p])"

definition set_delete :: "pid \<Rightarrow> pid list \<Rightarrow> pid list" where
  "set_delete p ps = filter (\<lambda>q. q \<noteq> p) ps"


subsection \<open>Listeners of a child process\<close>

text \<open>The listeners \<^verbatim>\<open>startServer\<close> registers on child handle \<open>c\<close>; they close
  over \<^verbatim>\<open>childProcess.pid\<close> and over the \<^verbatim>\<open>logLines\<close> array at reference \<open>c\<close>.\<close>

definition push_line :: "nat \<Rightarrow> string \<Rightarrow> 'os world \<Rightarrow> 'os world" where
  "push_line c line w = w\<lparr>arrays := (arrays w)(c := arrays w c @ [line])\<rparr>"

definition appendLog :: "string \<Rightarrow> nat \<Rightarrow> string \<Rightarrow> 'os world \<Rightarrow> 'os world" where
  "appendLog source c data w =
     (let logLine = trim data;
          line = ''['' @ source @ ''][PID:'' @ show_nat (handles w ! c) @ '']: '' @ logLine
      in emit (AServerLog Info line) (push_line c line w))"

definition render_code :: "int option \<Rightarrow> string" where
  "render_code c = (case c of None \<Rightarrow> ''null'' | Some i \<Rightarrow> show_int i)"

definition render_signal :: "string option \<Rightarrow> string" where
  "render_signal s = (case s of None \<Rightarrow> ''null'' | Some n \<Rightarrow> n)"

definition on_close :: "nat \<Rightarrow> int option \<Rightarrow> string option \<Rightarrow> 'os world \<Rightarrow> 'os world" where
  "on_close c code sg w =
     (let p = handles w ! c;
          line = ''[process][PID:'' @ show_nat p @ ''] Exited with code '' @ render_code code
                 @ '' signal '' @ render_signal sg;
          w1 = emit (AServerLog Info line) w;
          w2 = push_line c line w1
      in emit (ACloseEvent p) (w2\<lparr>serverPIDs := set_delete p (serverPIDs w2)\<rparr>))"

definition on_error :: "nat \<Rightarrow> string \<Rightarrow> 'os world \<Rightarrow> 'os world" where
  "on_error c msg w =
     (let line = ''[process][PID:'' @ show_nat (handles w ! c) @ ''] Error: '' @ msg
      in push_line c line (emit (AServerLog Error line) w))"

text \<open>An event for a handle that has no listeners is dropped.\<close>

fun dispatch :: "'os world \<Rightarrow> child_event \<Rightarrow> 'os world" where
  "dispatch w (Stdout c d) = (if c < length (handles w) then appendLog ''stdout'' c d w else w)"
| "dispatch w (Stderr c d) = (if c < length (handles w) then appendLog ''stderr'' c d w else w)"
| "dispatch w (Close c code sg) = (if c < length (handles w) then on_close c code sg w else w)"
| "dispatch w (ChildError c m) = (if c < length (handles w) then on_error c m w else w)"

definition deliver :: "child_event list \<Rightarrow> 'os world \<Rightarrow> 'os world" where
  "deliver evs w = foldl dispatch w evs"

subsection \<open>Timers, liveness, port probe\<close>

definition sleep :: "'os os_ops \<Rightarrow> nat \<Rightarrow> 'os world \<Rightarrow> 'os world" where
  "sleep ops ms w =
     (let (evs, s) = timer ops (os w) ms
      in deliver evs (emit (ASleep ms) (w\<lparr>os := s\<rparr>)))"

definition isProcessRunning :: "'os os_ops \<Rightarrow> pid \<Rightarrow> 'os world \<Rightarrow> bool \<times> 'os world" where
  "isProcessRunning ops p w =
     (let r = kill0 ops (os w) p in (r, emit (AProbe p r) w))"

text \<open>Errors thrown: \<open>Thrown m\<close> is \<^verbatim>\<open>new Error(m)\<close>; \<open>BadPort n\<close> is the
  \<^verbatim>\<open>RangeError\<close> with code \<^verbatim>\<open>ERR_SOCKET_BAD_PORT\<close> that \<^verbatim>\<open>net.Socket.connect\<close>
  throws when \<open>n\<close> is not a port.\<close>

datatype js_error = Thrown string | BadPort int

definition valid_port :: "int \<Rightarrow> bool" where
  "valid_port prt \<longleftrightarrow> 0 \<le> prt \<and> prt \<le> 65535"

text \<open>What the three \<^verbatim>\<open>once\<close> listeners of \<^verbatim>\<open>portInUse\<close> resolve the promise
  with. The promise is resolved once, by the listener of the first event.
  \<^verbatim>\<open>startServer\<close>, the only caller, always passes the host, so the default
  value of that parameter plays no role.\<close>

fun resolved :: "sock_event \<Rightarrow> bool" where
  "resolved Connected = True"
| "resolved TimedOut = False"
| "resolved (Failed code) = (if code = ''ECONNREFUSED'' then False else False)"

definition probe_timeout :: nat where
  "probe_timeout = 1000"

text \<open>\<^verbatim>\<open>client.connect(port, host)\<close> checks the port before it attempts any
  connection and throws for a number outside 0 to 65535. It is called in the
  executor of the promise, so the promise is rejected and the \<^verbatim>\<open>await\<close> of
  the caller rethrows the error; no event is awaited in that case.\<close>

definition portInUse ::
  "'os os_ops \<Rightarrow> int \<Rightarrow> string \<Rightarrow> 'os world \<Rightarrow> (js_error + bool) \<times> 'os world" where
  "portInUse ops prt host w =
     (if \<not> valid_port prt then (Inl (BadPort prt), w)
      else
        let (ev, evs, s) = connect ops (os w) prt host probe_timeout;
            r = resolved ev
        in (Inr r, deliver evs (emit (AConnect prt host r) (w\<lparr>os := s\<rparr>))))"

subsection \<open>Termination controller\<close>

definition taskkill :: "pid \<Rightarrow> bool \<Rightarrow> string" where
  "taskkill p force =
     ''taskkill /PID '' @ show_nat p @ '' /T'' @ (if force then '' /F'' else '''')"

definition failed_msg :: "pid \<Rightarrow> string" where
  "failed_msg p = ''Failed to terminate process (PID: '' @ show_nat p @ ''):''"

definition run_command :: "'os os_ops \<Rightarrow> pid \<Rightarrow> 'os world \<Rightarrow> string \<Rightarrow> 'os world" where
  "run_command ops p w cmd =
     (let (ok, s) = execSync ops (os w) cmd;
          w1 = emit (AExec cmd ok) (w\<lparr>os := s\<rparr>)
      in if ok then sleep ops 500 w1 else logmsg Error (failed_msg p) w1)"

definition terminateWindows :: "'os os_ops \<Rightarrow> pid \<Rightarrow> bool \<Rightarrow> 'os world \<Rightarrow> 'os world" where
  "terminateWindows ops p forceKill w =
     (let commands = (if forceKill then [taskkill p True]
                      else [taskkill p False, taskkill p True])
      in foldl (run_command ops p) w commands)"

definition send_signal :: "'os os_ops \<Rightarrow> pid \<Rightarrow> 'os world \<Rightarrow> signal \<Rightarrow> 'os world" where
  "send_signal ops p w sg =
     (let (ok, s) = process_kill ops (os w) (- int p) sg;
          w1 = emit (AKill (- int p) sg ok) (w\<lparr>os := s\<rparr>)
      in if \<not> ok then logmsg Error (failed_msg p) w1
         else let w2 = sleep ops 500 w1;
                  (running, w3) = isProcessRunning ops p w2
              in if running then
                   let (ok', s') = process_kill ops (os w3) (int p) sg;
                       w4 = emit (AKill (int p) sg ok') (w3\<lparr>os := s'\<rparr>)
                   in if ok' then sleep ops 500 w4 else logmsg Error (failed_msg p) w4
                 else w3)"

definition terminateUnix :: "'os os_ops \<Rightarrow> pid \<Rightarrow> bool \<Rightarrow> 'os world \<Rightarrow> 'os world" where
  "terminateUnix ops p forceKill w =
     (let signals = (if forceKill then [SIGKILL] else [SIGTERM, SIGKILL])
      in foldl (send_signal ops p) w signals)"

definition maxRetries :: nat where
  "maxRetries = 3"

definition terminated_msg :: "pid \<Rightarrow> string" where
  "terminated_msg p = ''Successfully terminated process tree (PID: '' @ show_nat p @ '')''"

definition gave_up_msg :: "pid \<Rightarrow> string" where
  "gave_up_msg p = ''Failed to terminate process tree (PID: '' @ show_nat p @ '') after ''
                   @ show_nat maxRetries @ '' attempts''"

text \<open>One pass through the \<^verbatim>\<open>try\<close> block of \<^verbatim>\<open>terminateProcessTree\<close>: the platform's
  termination, then the liveness check. Both callees catch what they throw,
  so the \<^verbatim>\<open>catch\<close> of the block is never entered.\<close>

definition attempt_once :: "'os os_ops \<Rightarrow> pid \<Rightarrow> bool \<Rightarrow> 'os world \<Rightarrow> bool \<times> 'os world" where
  "attempt_once ops p forceKill w =
     isProcessRunning ops p
       (if platform ops = Win32 then terminateWindows ops p forceKill w
        else terminateUnix ops p forceKill w)"

function retry_loop :: "'os os_ops \<Rightarrow> pid \<Rightarrow> bool \<Rightarrow> nat \<Rightarrow> 'os world \<Rightarrow> 'os world" where
  "retry_loop ops p forceKill attempt w =
     (if attempt \<le> maxRetries then
        (let (running, w1) = attempt_once ops p forceKill w
         in if \<not> running then logmsg Info (terminated_msg p) w1
            else retry_loop ops p forceKill (attempt + 1)
                   (if attempt < maxRetries then sleep ops 1000 w1 else w1))
      else logmsg Error (gave_up_msg p) w)"
  by pat_completeness auto
termination
  by (relation "measure (\<lambda>(ops, p, forceKill, attempt, w). maxRetries + 1 - attempt)") auto

declare retry_loop.simps [simp del]

definition terminateProcessTree :: "'os os_ops \<Rightarrow> pid \<Rightarrow> bool \<Rightarrow> 'os world \<Rightarrow> 'os world" where
  "terminateProcessTree ops p forceKill w = retry_loop ops p forceKill 1 w"

subsection \<open>Stopping\<close>

definition still_running_msg :: "pid \<Rightarrow> string" where
  "still_running_msg p =
     ''Process '' @ show_nat p @ '' may still be running after termination attempts''"

text \<open>The body of the last loop of \<^verbatim>\<open>stopAllServers\<close>.\<close>

definition verify_pid :: "'os os_ops \<Rightarrow> 'os world \<Rightarrow> pid \<Rightarrow> 'os world" where
  "verify_pid ops w p =
     (let (running, w1) = isProcessRunning ops p w
      in if \<not> running then
           w1\<lparr>serverPIDs := set_delete p (serverPIDs w1), serverLogs := (serverLogs w1)(p := None)\<rparr>
         else logmsg Warn (still_running_msg p) w1)"

definition stopped_msg :: "nat \<Rightarrow> nat \<Rightarrow> string" where
  "stopped_msg n remaining =
     ''Stopped '' @ show_int (int n - int remaining) @ ''/'' @ show_nat n
     @ '' servers successfully.''"

definition stopAllServers :: "'os os_ops \<Rightarrow> 'os world \<Rightarrow> 'os world" where
  "stopAllServers ops w =
     (let w0 = logmsg Info ''Stopping all servers...'' w;
          pidsToStop = serverPIDs w0
      in if length pidsToStop = 0 then logmsg Info ''No servers to stop.'' w0
         else
           let w1 = foldl (\<lambda>v p. terminateProcessTree ops p False v) w0 pidsToStop;
               w2 = sleep ops 2000 w1;
               w3 = foldl (\<lambda>v p. terminateProcessTree ops p True v) w2 pidsToStop;
               w4 = foldl (verify_pid ops) w3 pidsToStop
           in logmsg Info (stopped_msg (length pidsToStop) (length (serverPIDs w4))) w4)"

subsection \<open>Starting\<close>

record start_result =
  res_url :: string
  res_pid :: pid

text \<open>\<^verbatim>\<open>port || 8080\<close>, the parameter defaulting to \<^verbatim>\<open>null\<close>.\<close>

definition desired_port :: "port_arg \<Rightarrow> int" where
  "desired_port prt = (case prt of PNum n \<Rightarrow> (if n = 0 then 8080 else n) | _ \<Rightarrow> 8080)"

definition in_use_msg :: "int \<Rightarrow> string" where
  "in_use_msg prt = ''Port '' @ show_int prt @ '' is in use, trying next port...''"

definition no_ports :: js_error where
  "no_ports = Thrown ''No available ports found''"

text \<open>The \<^verbatim>\<open>while\<close> loop of \<^verbatim>\<open>startServer\<close> that looks for an available port.
  An error thrown by the probe leaves the loop and \<^verbatim>\<open>startServer\<close>.\<close>

function scanPorts ::
  "'os os_ops \<Rightarrow> string \<Rightarrow> int \<Rightarrow> int \<Rightarrow> 'os world \<Rightarrow> (js_error + int) \<times> 'os world" where
  "scanPorts ops host desiredPort availablePort w =
     (let (probed, w1) = portInUse ops availablePort host w
      in case probed of
           Inl e \<Rightarrow> (Inl e, w1)
         | Inr inUse \<Rightarrow>
             if inUse then
               (let w2 = logmsg Info (in_use_msg (availablePort + 1)) w1
                in if availablePort + 1 > desiredPort + 100
                   then (Inl no_ports, w2)
                   else scanPorts ops host desiredPort (availablePort + 1) w2)
             else (Inr availablePort, w1))"
  by pat_completeness auto
termination
  by (relation "measure (\<lambda>(ops, host, desiredPort, availablePort, w).
                           nat (desiredPort + 101 - availablePort))") auto

declare scanPorts.simps [simp del]

fun join_args :: "string list \<Rightarrow> string" where
  "join_args [] = []"
| "join_args [a] = a"
| "join_args (a # b # bs) = a @ '' '' @ join_args (b # bs)"

text \<open>Lines 771 to 794: the new \<^verbatim>\<open>logLines\<close> array, the two registries, the
  listeners.\<close>

definition register_child :: "pid \<Rightarrow> 'os world \<Rightarrow> 'os world" where
  "register_child p w =
     (let c = length (handles w)
      in w\<lparr>serverPIDs := set_add p (serverPIDs w),
           serverLogs := (serverLogs w)(p \<mapsto> c),
           arrays := (arrays w)(c := []),
           handles := handles w @ [p]\<rparr>)"

definition no_pid :: js_error where
  "no_pid = Thrown ''Failed to start server: No PID available''"

text \<open>Lines 750 to 802: from \<^verbatim>\<open>commandArgs.push\<close> to the \<^verbatim>\<open>return\<close>.
  \<^verbatim>\<open>!childProcess.pid\<close> holds for \<^verbatim>\<open>undefined\<close> and for \<open>0\<close>. The options of
  \<^verbatim>\<open>spawn\<close> (detached, stdio, environment) are left to the operating system
  parameter.\<close>

definition launch ::
  "'os os_ops \<Rightarrow> bool \<Rightarrow> string \<Rightarrow> string list \<Rightarrow> int \<Rightarrow> 'os world
   \<Rightarrow> (js_error + start_result) \<times> 'os world" where
  "launch ops expose host commandArgs availablePort w =
     (let args = commandArgs @ [''--port'', show_int availablePort];
          w1 = logmsg Info (''Starting Open-WebUI server... '' @ pythonPath ops @ '' ''
                            @ join_args args) w;
          (child, s) = spawn ops (os w1) (pythonPath ops) args;
          w2 = emit (ASpawn (pythonPath ops) args child) (w1\<lparr>os := s\<rparr>)
      in case child of
           None \<Rightarrow> (Inl no_pid, w2)
         | Some p \<Rightarrow>
             if p = 0 then (Inl no_pid, w2)
             else
               let w3 = register_child p w2;
                   effectiveHost = (if \<not> expose \<and> host = ''0.0.0.0'' then ''127.0.0.1'' else host);
                   u = ''http://'' @ effectiveHost @ '':'' @ show_int availablePort;
                   w4 = logmsg Info (''Server started with PID: '' @ show_nat p @ '', URL: '' @ u) w3
               in (Inr \<lparr>res_url = u, res_pid = p\<rparr>, w4))"

definition python_missing :: js_error where
  "python_missing = Thrown ''Python is not installed''"

definition package_missing :: js_error where
  "package_missing = Thrown ''open-webui package is not installed''"

definition bind_host :: "bool \<Rightarrow> string" where
  "bind_host expose = (if expose then ''0.0.0.0'' else ''127.0.0.1'')"

definition startServer ::
  "'os os_ops \<Rightarrow> bool \<Rightarrow> port_arg \<Rightarrow> 'os world \<Rightarrow> (js_error + start_result) \<times> 'os world" where
  "startServer ops expose prt w =
     (let w1 = stopAllServers ops w;
          host = bind_host expose
      in if \<not> pythonInstalled ops (os w1) then (Inl python_missing, w1)
         else if \<not> packageInstalled ops (os w1) then (Inl package_missing, w1)
         else
           let w2 = logmsg Info (''Using Python at: '' @ pythonPath ops) w1;
               commandArgs = [''-m'', ''uv'', ''run'', ''open-webui'', ''serve'', ''--host'', host];
               (failure, s) = prepareEnv ops (os w2);
               w3 = w2\<lparr>os := s\<rparr>
           in case failure of
                Some msg \<Rightarrow> (Inl (Thrown msg), w3)
              | None \<Rightarrow>
                  let desiredPort = desired_port prt;
                      w4 = logmsg Info (''Checking port availability starting from ''
                                        @ show_int desiredPort @ ''...'') w3
                  in case scanPorts ops host desiredPort desiredPort w4 of
                       (Inl e, w5) \<Rightarrow> (Inl e, w5)
                     | (Inr availablePort, w5) \<Rightarrow>
                         launch ops expose host commandArgs availablePort w5)"

subsection \<open>The handlers of the main process\<close>

record handler_state =
  SERVER_URL :: "string option"
  SERVER_STATUS :: "string option"
  SERVER_REACHABLE :: bool
  SERVER_PID :: "pid option"

definition render_status :: "string option \<Rightarrow> string" where
  "render_status st = (case st of None \<Rightarrow> ''null'' | Some s \<Rightarrow> s)"

text \<open>\<^verbatim>\<open>stopServerHandler\<close>; \<^verbatim>\<open>stopAllServers\<close> throws nothing, so the handler
  returns \<^verbatim>\<open>true\<close>. \<^verbatim>\<open>if (SERVER_STATUS)\<close> holds for a non-empty string.\<close>

definition stopServerHandler ::
  "'os os_ops \<Rightarrow> handler_state \<times> 'os world \<Rightarrow> bool \<times> handler_state \<times> 'os world" where
  "stopServerHandler ops hw =
     (let (h, w) = hw;
          w1 = stopAllServers ops w;
          truthy = (case SERVER_STATUS h of None \<Rightarrow> False | Some s \<Rightarrow> s \<noteq> []);
          h1 = (if truthy then h\<lparr>SERVER_STATUS := Some ''stopped''\<rparr> else h);
          w2 = (if truthy then emit (ATray ''Open WebUI: Stopped'') w1 else w1);
          h2 = h1\<lparr>SERVER_REACHABLE := False, SERVER_URL := None\<rparr>;
          w3 = emit (ASend ''status:server'' (render_status (SERVER_STATUS h2))) w2
      in (True, h2, w3))"

text \<open>The \<^verbatim>\<open>catch\<close> block of \<^verbatim>\<open>startServerHandler\<close>; \<open>err\<close> is the caught error
  as a template literal renders it.\<close>

definition start_failed ::
  "string \<Rightarrow> handler_state \<Rightarrow> 'os world \<Rightarrow> bool \<times> handler_state \<times> 'os world" where
  "start_failed err h w =
     (let w1 = logmsg Error (''Failed to start server: '' @ err) w;
          h1 = h\<lparr>SERVER_STATUS := Some ''failed''\<rparr>;
          w2 = emit (ASend ''status:server'' ''failed'') w1;
          w3 = emit (ASend ''main:log'' (''Failed to start server: '' @ err)) w2;
          w4 = emit (ATray ''Open WebUI: Failed to Start'') w3
      in (False, h1, w4))"

text \<open>\<^verbatim>\<open>CONFIG?.port ?? null\<close> and \<^verbatim>\<open>CONFIG?.serveOnLocalNetwork ?? false\<close>.\<close>

definition config_port :: "config \<Rightarrow> port_arg" where
  "config_port c = (case port c of PUndefined \<Rightarrow> PNull | PNull \<Rightarrow> PNull | PNum n \<Rightarrow> PNum n)"

definition config_expose :: "config \<Rightarrow> bool" where
  "config_expose c = (case serveOnLocalNetwork c of None \<Rightarrow> False | Some b \<Rightarrow> b)"

text \<open>\<^verbatim>\<open>startServerHandler\<close> up to the point where the status \<^verbatim>\<open>started\<close> has
  been sent to the window (line 291); the reachability poll it then starts
  in the background is outside the model.\<close>

text \<open>An error as a template literal renders it.\<close>

definition render_error :: "'os os_ops \<Rightarrow> js_error \<Rightarrow> string" where
  "render_error ops e =
     (case e of
        Thrown m \<Rightarrow> ''Error: '' @ m
      | BadPort n \<Rightarrow> ''RangeError [ERR_SOCKET_BAD_PORT]: '' @ badPortMessage ops n)"

definition startServerHandler ::
  "'os os_ops \<Rightarrow> handler_state \<times> 'os world \<Rightarrow> bool \<times> handler_state \<times> 'os world" where
  "startServerHandler ops hw =
     (let (stopped, h1, w1) = stopServerHandler ops hw;
          h2 = h1\<lparr>SERVER_STATUS := Some ''starting''\<rparr>;
          w2 = emit (ASend ''status:server'' ''starting'') w1;
          (cfg, evs, s) = readConfig ops (os w2);
          w3 = deliver evs (w2\<lparr>os := s\<rparr>)
      in case cfg of
           Inl msg \<Rightarrow> start_failed msg h2 w3
         | Inr c \<Rightarrow>
             (case startServer ops (config_expose c) (config_port c) w3 of
                (Inl e, w4) \<Rightarrow> start_failed (render_error ops e) h2 w4
              | (Inr r, w4) \<Rightarrow>
                  let h3 = h2\<lparr>SERVER_URL := Some (res_url r), SERVER_PID := Some (res_pid r)\<rparr>;
                      w5 = emit (ATray ''Open WebUI: Starting...'') w4;
                      w6 = logmsg Info (''Server started successfully: '' @ res_url r @ '' ''
                                        @ show_nat (res_pid r)) w5;
                      h4 = h3\<lparr>SERVER_STATUS := Some ''started''\<rparr>;
                      w7 = emit (ASend ''status:server'' ''started'') w6
                  in (True, h4, w7)))"

subsection \<open>Reading a trace\<close>

text \<open>The probed ports of a trace, with their hosts, in order.\<close>

fun probes :: "action list \<Rightarrow> (int \<times> string) list" where
  "probes [] = []"
| "probes (AConnect prt host r # t) = (prt, host) # probes t"
| "probes (a # t) = probes t"

text \<open>The shell commands of a trace, in order.\<close>

fun commands :: "action list \<Rightarrow> string list" where
  "commands [] = []"
| "commands (AExec cmd ok # t) = cmd # commands t"
| "commands (a # t) = commands t"

fun is_spawn :: "action \<Rightarrow> bool" where
  "is_spawn (ASpawn exe args child) = True"
| "is_spawn a = False"

fun is_probe :: "action \<Rightarrow> bool" where
  "is_probe (AProbe p r) = True"
| "is_probe a = False"

text \<open>The pauses of a trace that lie before the first occurrence of a
  given shell command.\<close>

fun pauses_before :: "string \<Rightarrow> action list \<Rightarrow> nat list" where
  "pauses_before cmd [] = []"
| "pauses_before cmd (ASleep ms # t) = ms # pauses_before cmd t"
| "pauses_before cmd (AExec c ok # t) = (if c = cmd then [] else pauses_before cmd t)"
| "pauses_before cmd (a # t) = pauses_before cmd t"

subsection \<open>Assumptions on the operating system\<close>

text \<open>A process that does not exist does not come back: no signal, command
  or lapse of time makes the liveness probe of \<open>p\<close> succeed once it has failed.\<close>

definition death_is_final :: "'os os_ops \<Rightarrow> pid \<Rightarrow> bool" where
  "death_is_final ops p \<longleftrightarrow>
     (\<forall>s. \<not> kill0 ops s p \<longrightarrow>
        (\<forall>target sg. \<not> kill0 ops (snd (process_kill ops s target sg)) p) \<and>
        (\<forall>cmd. \<not> kill0 ops (snd (execSync ops s cmd)) p) \<and>
        (\<forall>ms. \<not> kill0 ops (snd (timer ops s ms)) p))"

text \<open>The listeners on \<open>host\<close> do not change: in every state a probe of a port
  connects exactly when the port is in \<open>occ\<close>.\<close>

definition steady_ports :: "'os os_ops \<Rightarrow> string \<Rightarrow> (int \<Rightarrow> bool) \<Rightarrow> bool" where
  "steady_ports ops host occ \<longleftrightarrow>
     (\<forall>s prt. fst (connect ops s prt host probe_timeout) = Connected \<longleftrightarrow> occ prt)"

text \<open>A property of the state of the operating system that no signal,
  command or lapse of time destroys.\<close>

definition os_invariant :: "'os os_ops \<Rightarrow> ('os \<Rightarrow> bool) \<Rightarrow> bool" where
  "os_invariant ops P \<longleftrightarrow>
     (\<forall>s. P s \<longrightarrow>
        (\<forall>target sg. P (snd (process_kill ops s target sg))) \<and>
        (\<forall>cmd. P (snd (execSync ops s cmd))) \<and>
        (\<forall>ms. P (snd (timer ops s ms))))"

subsection \<open>A small operating system for examples\<close>

text \<open>Processes are pids in \<open>live\<close>; a signal or a \<^verbatim>\<open>taskkill\<close> aimed at a live
  process removes it unless it is in \<open>deaf\<close>, and fails when the process does
  not exist. \<open>pending\<close> are the child events the next timer delivers,
  \<open>fresh\<close> is the pid the next spawn hands out. The ports with a listener
  (\<open>busy\<close>) and the answers of the two installation checks are fixed.\<close>

record sim =
  live :: "pid list"
  deaf :: "pid list"
  fresh :: pid
  pending :: "child_event list"

definition sim_kill :: "sim \<Rightarrow> int \<Rightarrow> signal \<Rightarrow> bool \<times> sim" where
  "sim_kill s target sg =
     (let p = nat \<bar>target\<bar>
      in if p \<in> set (live s)
         then (True, if p \<in> set (deaf s) then s else s\<lparr>live := removeAll p (live s)\<rparr>)
         else (False, s))"

definition sim_exec :: "sim \<Rightarrow> string \<Rightarrow> bool \<times> sim" where
  "sim_exec s cmd =
     (let victims = filter (\<lambda>p. cmd = taskkill p True \<or> cmd = taskkill p False) (live s)
      in if victims = [] then (False, s)
         else (True, s\<lparr>live := filter (\<lambda>p. p \<notin> set victims \<or> p \<in> set (deaf s)) (live s)\<rparr>))"

definition sim_spawn :: "sim \<Rightarrow> string \<Rightarrow> string list \<Rightarrow> pid option \<times> sim" where
  "sim_spawn s exe args = (Some (fresh s), s\<lparr>live := live s @ [fresh s], fresh := Suc (fresh s)\<rparr>)"

definition sim_ops :: "platform \<Rightarrow> bool \<Rightarrow> bool \<Rightarrow> int list \<Rightarrow> sim os_ops" where
  "sim_ops plat python package busy =
     \<lparr>platform = plat,
      pythonPath = ''python'',
      process_kill = sim_kill,
      kill0 = (\<lambda>s p. p \<in> set (live s)),
      execSync = sim_exec,
      timer = (\<lambda>s ms. (pending s, s\<lparr>pending := []\<rparr>)),
      connect = (\<lambda>s prt host ms. (if prt \<in> set busy then Connected else Failed ''ECONNREFUSED'', [], s)),
      badPortMessage = (\<lambda>n. ''Port should be >= 0 and < 65536. Received type number (''
                              @ show_int n @ '').''),
      spawn = sim_spawn,
      pythonInstalled = (\<lambda>s. python),
      packageInstalled = (\<lambda>s. package),
      prepareEnv = (\<lambda>s. (None, s)),
      readConfig = (\<lambda>s. (Inr \<lparr>serveOnLocalNetwork = None, port = PUndefined\<rparr>, [], s))\<rparr>"

text \<open>The module right after loading: both registries empty, no child handle.\<close>

definition fresh_world :: "'os \<Rightarrow> 'os world" where
  "fresh_world s =
     \<lparr>serverPIDs = [], serverLogs = Map.empty, arrays = (\<lambda>r. []), handles = [], os = s, trace = []\<rparr>"

definition fresh_handler :: handler_state where
  "fresh_handler =
     \<lparr>SERVER_URL = None, SERVER_STATUS = None, SERVER_REACHABLE = False, SERVER_PID = None\<rparr>"

text \<open>A machine with nothing running, whose first spawn gets pid 100.\<close>

definition quiet :: sim where
  "quiet = \<lparr>live = [], deaf = [], fresh = 100, pending = []\<rparr>"

subsection \<open>Relations between a state and a later state\<close>

text \<open>Actions the listeners of a child emit.\<close>

fun listener_action :: "action \<Rightarrow> bool" where
  "listener_action (AServerLog l s) = True"
| "listener_action (ACloseEvent p) = True"
| "listener_action a = False"

text \<open>Actions of the termination controller: everything but a port probe, a
  spawn and the messages of the handlers.\<close>

fun controller_action :: "action \<Rightarrow> bool" where
  "controller_action (AConnect prt host r) = False"
| "controller_action (ASpawn exe args child) = False"
| "controller_action (ASend ch s) = False"
| "controller_action (ATray s) = False"
| "controller_action a = True"

text \<open>Actions of one attempt of \<^verbatim>\<open>terminateProcessTree\<close>, before its
  liveness check.\<close>

fun attempt_action :: "action \<Rightarrow> bool" where
  "attempt_action (AExec cmd ok) = True"
| "attempt_action (AKill target sg ok) = True"
| "attempt_action (AProbe p r) = True"
| "attempt_action (ASleep ms) = (ms = 500)"
| "attempt_action (ALog l s) = (l = Error)"
| "attempt_action (AServerLog l s) = True"
| "attempt_action (ACloseEvent p) = True"
| "attempt_action a = False"

fun not_spawn :: "action \<Rightarrow> bool" where
  "not_spawn a = (\<not> is_spawn a)"

text \<open>\<open>step A w w'\<close>: from \<open>w\<close> to \<open>w'\<close> only actions in \<open>A\<close> were appended to the
  trace, no child handle was added, \<^verbatim>\<open>serverLogs\<close> is the same, every
  \<^verbatim>\<open>logLines\<close> array kept its lines and at most got lines appended, and every
  pid that left \<^verbatim>\<open>serverPIDs\<close> did so in the \<^verbatim>\<open>close\<close> listener of a child.\<close>

definition step :: "(action \<Rightarrow> bool) \<Rightarrow> 'os world \<Rightarrow> 'os world \<Rightarrow> bool" where
  "step A w w' \<longleftrightarrow>
     handles w' = handles w \<and> serverLogs w' = serverLogs w \<and>
     set (serverPIDs w') \<subseteq> set (serverPIDs w) \<and>
     (\<forall>r. \<exists>ls. arrays w' r = arrays w r @ ls) \<and>
     (\<exists>t. trace w' = trace w @ t \<and> list_all A t \<and>
          (\<forall>p\<in>set (serverPIDs w). p \<notin> set (serverPIDs w') \<longrightarrow> ACloseEvent p \<in> set t))"

text \<open>\<open>justified w w'\<close>: every pid that left \<^verbatim>\<open>serverPIDs\<close> between \<open>w\<close> and
  \<open>w'\<close> had its \<^verbatim>\<open>close\<close> event handled or a liveness check that found it
  dead in between.\<close>

definition justified :: "'os world \<Rightarrow> 'os world \<Rightarrow> bool" where
  "justified w w' \<longleftrightarrow>
     (\<exists>t. trace w' = trace w @ t \<and>
          (\<forall>p\<in>set (serverPIDs w). p \<notin> set (serverPIDs w') \<longrightarrow>
             ACloseEvent p \<in> set t \<or> AProbe p False \<in> set t))"

text \<open>\<open>stop_step w w'\<close>: what a run of \<^verbatim>\<open>stopAllServers\<close> guarantees: only
  actions of the termination controller, no new child handle, no new pid,
  every \<^verbatim>\<open>logLines\<close> array keeps its lines, and every pid that left
  \<^verbatim>\<open>serverPIDs\<close> had its \<^verbatim>\<open>close\<close> event handled or was found dead by a
  liveness check.\<close>

definition stop_step :: "'os world \<Rightarrow> 'os world \<Rightarrow> bool" where
  "stop_step w w' \<longleftrightarrow>
     handles w' = handles w \<and>
     set (serverPIDs w') \<subseteq> set (serverPIDs w) \<and>
     (\<forall>r. \<exists>ls. arrays w' r = arrays w r @ ls) \<and>
     (\<exists>t. trace w' = trace w @ t \<and> list_all controller_action t \<and>
          (\<forall>p\<in>set (serverPIDs w). p \<notin> set (serverPIDs w') \<longrightarrow>
             ACloseEvent p \<in> set t \<or> AProbe p False \<in> set t))"

text \<open>The first probed port of a trace, if any.\<close>

definition first_probe :: "action list \<Rightarrow> (int \<times> string) option" where
  "first_probe t = (case probes t of [] \<Rightarrow> None | x # xs \<Rightarrow> Some x)"

text \<open>\<^verbatim>\<open>startServer\<close> gets as far as its port scan: after the stop both
  installation checks succeed and the environment is prepared.\<close>

definition scan_reached :: "'os os_ops \<Rightarrow> 'os world \<Rightarrow> bool" where
  "scan_reached ops w \<longleftrightarrow>
     pythonInstalled ops (os (stopAllServers ops w)) \<and>
     packageInstalled ops (os (stopAllServers ops w)) \<and>
     fst (prepareEnv ops (os (stopAllServers ops w))) = None"

subsection \<open>Frame lemmas: listeners and termination controller\<close>

lemma step_refl: "step A w w"
  by (simp add: step_def)

lemma arrays_grow_trans:
  assumes "\<forall>r. \<exists>ls. arrays w' r = arrays w r @ ls"
      and "\<forall>r. \<exists>ls. arrays w'' r = arrays w' r @ ls"
  shows "\<forall>r. \<exists>ls. arrays w'' r = arrays w r @ ls"
proof
  fix r
  from assms(1) obtain ls where "arrays w' r = arrays w r @ ls" by blast
  moreover from assms(2) obtain ms where "arrays w'' r = arrays w' r @ ms" by blast
  ultimately have "arrays w'' r = arrays w r @ (ls @ ms)" by simp
  then show "\<exists>ls. arrays w'' r = arrays w r @ ls" by blast
qed

lemma step_trans:
  assumes "step A w w'" and "step A w' w''"
  shows "step A w w''"
proof -
  from assms(1) obtain t where t: "trace w' = trace w @ t" "list_all A t"
    "\<forall>p\<in>set (serverPIDs w). p \<notin> set (serverPIDs w') \<longrightarrow> ACloseEvent p \<in> set t"
    and f: "handles w' = handles w" "serverLogs w' = serverLogs w"
           "set (serverPIDs w') \<subseteq> set (serverPIDs w)"
    and a: "\<forall>r. \<exists>ls. arrays w' r = arrays w r @ ls"
    unfolding step_def by blast
  from assms(2) obtain u where u: "trace w'' = trace w' @ u" "list_all A u"
    "\<forall>p\<in>set (serverPIDs w'). p \<notin> set (serverPIDs w'') \<longrightarrow> ACloseEvent p \<in> set u"
    and g: "handles w'' = handles w'" "serverLogs w'' = serverLogs w'"
           "set (serverPIDs w'') \<subseteq> set (serverPIDs w')"
    and b: "\<forall>r. \<exists>ls. arrays w'' r = arrays w' r @ ls"
    unfolding step_def by blast
  have 1: "trace w'' = trace w @ (t @ u)" using t(1) u(1) by simp
  have 2: "list_all A (t @ u)" using t(2) u(2) by simp
  have 3: "\<forall>p\<in>set (serverPIDs w). p \<notin> set (serverPIDs w'') \<longrightarrow> ACloseEvent p \<in> set (t @ u)"
    using t(3) u(3) by auto
  have 4: "\<exists>t. trace w'' = trace w @ t \<and> list_all A t \<and>
             (\<forall>p\<in>set (serverPIDs w). p \<notin> set (serverPIDs w'') \<longrightarrow> ACloseEvent p \<in> set t)"
    using 1 2 3 by blast
  have 5: "handles w'' = handles w" "serverLogs w'' = serverLogs w"
          "set (serverPIDs w'') \<subseteq> set (serverPIDs w)"
    using f g by auto
  show ?thesis
    unfolding step_def using 4 5 arrays_grow_trans [OF a b] by blast
qed

lemma step_mono: "step A w w' \<Longrightarrow> (\<And>a. A a \<Longrightarrow> B a) \<Longrightarrow> step B w w'"
  unfolding step_def list_all_iff by blast

lemma step_emit: "A a \<Longrightarrow> step A w (emit a w)"
  by (simp add: step_def emit_def)

lemma step_logmsg: "A (ALog l s) \<Longrightarrow> step A w (logmsg l s w)"
  by (simp add: logmsg_def step_emit)

lemma step_os: "step A w (w\<lparr>os := s\<rparr>)"
  by (simp add: step_def)

lemma step_push_line: "step A w (push_line c line w)"
  by (simp add: step_def push_line_def)

lemma set_delete_set [simp]: "set (set_delete p ps) = set ps - {p}"
  by (auto simp: set_delete_def)

lemma set_add_set [simp]: "set (set_add p ps) = insert p (set ps)"
  by (auto simp: set_add_def)

lemma step_on_close: "step listener_action w (on_close c code sg w)"
  by (auto simp: step_def on_close_def Let_def emit_def push_line_def)

lemma step_dispatch: "step listener_action w (dispatch w ev)"
proof (cases ev)
  case (Stdout c d)
  then show ?thesis
    by (auto simp: appendLog_def Let_def step_refl intro!: step_trans [OF step_push_line step_emit])
next
  case (Stderr c d)
  then show ?thesis
    by (auto simp: appendLog_def Let_def step_refl intro!: step_trans [OF step_push_line step_emit])
next
  case (Close c code sg)
  then show ?thesis by (simp add: step_on_close step_refl)
next
  case (ChildError c m)
  then show ?thesis
    by (auto simp: on_error_def Let_def step_refl intro!: step_trans [OF step_emit step_push_line])
qed

lemma step_deliver: "step listener_action w (deliver evs w)"
  unfolding deliver_def
proof (induction evs arbitrary: w)
  case Nil
  show ?case by (simp add: step_refl)
next
  case (Cons ev evs)
  show ?case using step_trans [OF step_dispatch Cons.IH] by simp
qed

lemma listener_controller: "listener_action a \<Longrightarrow> controller_action a"
  by (cases a) simp_all

lemma step_sleep: "step controller_action w (sleep ops ms w)"
proof -
  obtain evs s where e: "timer ops (os w) ms = (evs, s)" by (cases "timer ops (os w) ms")
  have "step controller_action w (emit (ASleep ms) (w\<lparr>os := s\<rparr>))"
    by (rule step_trans [OF step_os step_emit]) simp
  moreover have "step controller_action (emit (ASleep ms) (w\<lparr>os := s\<rparr>))
                   (deliver evs (emit (ASleep ms) (w\<lparr>os := s\<rparr>)))"
    by (rule step_mono [OF step_deliver listener_controller])
  ultimately show ?thesis
    using e by (simp add: sleep_def) (rule step_trans)
qed

lemma listener_attempt: "listener_action a \<Longrightarrow> attempt_action a"
  by (cases a) simp_all

lemma attempt_controller: "attempt_action a \<Longrightarrow> controller_action a"
  by (cases a) simp_all

lemma step_sleep_500: "step attempt_action w (sleep ops 500 w)"
proof -
  obtain evs s where e: "timer ops (os w) 500 = (evs, s)" by (cases "timer ops (os w) 500")
  have "step attempt_action w (emit (ASleep 500) (w\<lparr>os := s\<rparr>))"
    by (rule step_trans [OF step_os step_emit]) simp
  moreover have "step attempt_action (emit (ASleep 500) (w\<lparr>os := s\<rparr>))
                   (deliver evs (emit (ASleep 500) (w\<lparr>os := s\<rparr>)))"
    by (rule step_mono [OF step_deliver listener_attempt])
  ultimately show ?thesis
    using e by (simp add: sleep_def) (rule step_trans)
qed

lemma step_isProcessRunning: "step attempt_action w (snd (isProcessRunning ops p w))"
  by (simp add: isProcessRunning_def Let_def step_emit)

lemma step_run_command: "step attempt_action w (run_command ops p w cmd)"
proof -
  obtain ok s where e: "execSync ops (os w) cmd = (ok, s)" by (cases "execSync ops (os w) cmd")
  let ?w1 = "emit (AExec cmd ok) (w\<lparr>os := s\<rparr>)"
  have 1: "step attempt_action w ?w1"
    by (rule step_trans [OF step_os step_emit]) simp
  have 2: "step attempt_action ?w1 (sleep ops 500 ?w1)" by (rule step_sleep_500)
  have 3: "step attempt_action ?w1 (logmsg Error (failed_msg p) ?w1)"
    by (rule step_logmsg) simp
  show ?thesis
    using e step_trans [OF 1 2] step_trans [OF 1 3] by (cases ok) (simp_all add: run_command_def Let_def)
qed

lemma step_foldl:
  assumes "\<And>v x. step A v (f v x)"
  shows "step A w (foldl f w xs)"
proof (induction xs arbitrary: w)
  case Nil
  show ?case by (simp add: step_refl)
next
  case (Cons x xs)
  show ?case using step_trans [OF assms Cons.IH] by simp
qed

lemma step_terminateWindows: "step attempt_action w (terminateWindows ops p force w)"
  unfolding terminateWindows_def Let_def by (rule step_foldl) (rule step_run_command)

lemma step_send_signal: "step attempt_action w (send_signal ops p w sg)"
proof -
  obtain ok s where e: "process_kill ops (os w) (- int p) sg = (ok, s)"
    by (cases "process_kill ops (os w) (- int p) sg")
  let ?w1 = "emit (AKill (- int p) sg ok) (w\<lparr>os := s\<rparr>)"
  let ?w2 = "sleep ops 500 ?w1"
  obtain running w3 where r: "isProcessRunning ops p ?w2 = (running, w3)"
    by (cases "isProcessRunning ops p ?w2")
  obtain ok' s' where e': "process_kill ops (os w3) (int p) sg = (ok', s')"
    by (cases "process_kill ops (os w3) (int p) sg")
  let ?w4 = "emit (AKill (int p) sg ok') (w3\<lparr>os := s'\<rparr>)"
  have 1: "step attempt_action w ?w1"
    by (rule step_trans [OF step_os step_emit]) simp
  have f1: "step attempt_action w (logmsg Error (failed_msg p) ?w1)"
    by (rule step_trans [OF 1 step_logmsg]) simp
  have 2: "step attempt_action w ?w2" by (rule step_trans [OF 1 step_sleep_500])
  have 3: "step attempt_action w w3"
    using step_trans [OF 2 step_isProcessRunning [of ?w2 ops p]] r by simp
  have 4: "step attempt_action w ?w4"
    by (rule step_trans [OF 3]) (rule step_trans [OF step_os step_emit], simp)
  have 5: "step attempt_action w (sleep ops 500 ?w4)" by (rule step_trans [OF 4 step_sleep_500])
  have 6: "step attempt_action w (logmsg Error (failed_msg p) ?w4)"
    by (rule step_trans [OF 4 step_logmsg]) simp
  show ?thesis
    using e r e' f1 3 5 6 by (cases ok; cases running; cases ok') (simp_all add: send_signal_def Let_def)
qed

lemma step_terminateUnix: "step attempt_action w (terminateUnix ops p force w)"
  unfolding terminateUnix_def Let_def by (rule step_foldl) (rule step_send_signal)

lemma step_attempt_once: "step controller_action w (snd (attempt_once ops p force w))"
  unfolding attempt_once_def
  by (rule step_mono [OF _ attempt_controller], rule step_trans [OF _ step_isProcessRunning])
     (simp add: step_terminateWindows step_terminateUnix)

lemma step_retry_loop: "step controller_action w (retry_loop ops p force attempt w)"
proof (induction ops p force attempt w rule: retry_loop.induct)
  case (1 ops p force attempt w)
  obtain running w1 where a: "attempt_once ops p force w = (running, w1)"
    by (cases "attempt_once ops p force w")
  have s1: "step controller_action w w1" using step_attempt_once [of w ops p force] a by simp
  show ?case
  proof (cases "attempt \<le> maxRetries")
    case False
    then show ?thesis by (simp add: retry_loop.simps [of ops p force attempt w] step_logmsg)
  next
    case le: True
    show ?thesis
    proof (cases running)
      case False
      have "step controller_action w (logmsg Info (terminated_msg p) w1)"
        by (rule step_trans [OF s1 step_logmsg]) simp
      with le a False show ?thesis by (simp add: retry_loop.simps [of ops p force attempt w])
    next
      case True
      let ?w2 = "if attempt < maxRetries then sleep ops 1000 w1 else w1"
      have s2: "step controller_action w ?w2"
        using s1 step_trans [OF s1 step_sleep] by simp
      have "step controller_action ?w2 (retry_loop ops p force (attempt + 1) ?w2)"
        using "1.IH" [OF le a [symmetric] refl] True by simp
      from step_trans [OF s2 this] le a True show ?thesis
        by (simp add: retry_loop.simps [of ops p force attempt w])
    qed
  qed
qed

lemma step_terminateProcessTree: "step controller_action w (terminateProcessTree ops p force w)"
  by (simp add: terminateProcessTree_def step_retry_loop)

subsection \<open>The port probe\<close>

lemma portInUse_invalid:
  "\<not> valid_port prt \<Longrightarrow> portInUse ops prt host w = (Inl (BadPort prt), w)"
  by (simp add: portInUse_def)

lemma portInUse_valid:
  assumes "valid_port prt" and "connect ops (os w) prt host probe_timeout = (ev, evs, s)"
  shows "portInUse ops prt host w
           = (Inr (resolved ev), deliver evs (emit (AConnect prt host (resolved ev)) (w\<lparr>os := s\<rparr>)))"
  using assms by (simp add: portInUse_def Let_def)

lemma resolved_iff: "resolved ev \<longleftrightarrow> ev = Connected"
  by (cases ev) simp_all

text \<open>
  Claim C6. For every port and host, the probe \<^verbatim>\<open>portInUse\<close> returns true exactly
  when the first event of the probing socket is \<^verbatim>\<open>connect\<close>, that is, when the
  TCP connection attempt succeeds. It returns false when the socket times
  out, the timeout set on the socket being 1000 ms, and it returns false on
  \<^verbatim>\<open>ECONNREFUSED\<close> and on every other error code. For a number that is not a
  port (outside 0 to 65535) no connection is attempted and the probe returns
  neither value: it throws the \<^verbatim>\<open>RangeError\<close> of \<^verbatim>\<open>connect\<close>.
\<close>

theorem portInUse_true_iff_connected:
  "fst (portInUse ops prt host w)
     = (if valid_port prt then Inr (fst (connect ops (os w) prt host 1000) = Connected)
        else Inl (BadPort prt))
   \<and> (fst (portInUse ops prt host w) = Inr True
        \<longleftrightarrow> valid_port prt \<and> fst (connect ops (os w) prt host 1000) = Connected)
   \<and> (valid_port prt \<and> fst (connect ops (os w) prt host 1000) = TimedOut
        \<longrightarrow> fst (portInUse ops prt host w) = Inr False)
   \<and> (valid_port prt \<and> fst (connect ops (os w) prt host 1000) = Failed code
        \<longrightarrow> fst (portInUse ops prt host w) = Inr False)"
proof (cases "valid_port prt")
  case False
  then show ?thesis by (simp add: portInUse_invalid)
next
  case True
  obtain ev evs s where c: "connect ops (os w) prt host probe_timeout = (ev, evs, s)"
    by (cases "connect ops (os w) prt host probe_timeout")
  have r: "fst (portInUse ops prt host w) = Inr (ev = Connected)"
    by (simp add: portInUse_valid [OF True c] resolved_iff)
  have e: "fst (connect ops (os w) prt host 1000) = ev"
    using c by (simp add: probe_timeout_def)
  show ?thesis
    unfolding r e using True by simp
qed

theorem portInUse_true_iff_connected_witness:
  "fst (portInUse (sim_ops NotWin32 True True [8080]) 8080 ''127.0.0.1'' (fresh_world quiet))
     = Inr True
   \<and> fst (portInUse (sim_ops NotWin32 True True [8080]) 8081 ''127.0.0.1'' (fresh_world quiet))
     = Inr False
   \<and> fst (portInUse (sim_ops NotWin32 True True [8080]) 65536 ''127.0.0.1'' (fresh_world quiet))
     = Inl (BadPort 65536)"
  using portInUse_true_iff_connected
          [of "sim_ops NotWin32 True True [8080]" 8080 "''127.0.0.1''" "fresh_world quiet"
              "''ECONNREFUSED''"]
        portInUse_true_iff_connected
          [of "sim_ops NotWin32 True True [8080]" 8081 "''127.0.0.1''" "fresh_world quiet"
              "''ECONNREFUSED''"]
        portInUse_true_iff_connected
          [of "sim_ops NotWin32 True True [8080]" 65536 "''127.0.0.1''" "fresh_world quiet"
              "''ECONNREFUSED''"]
  by (simp add: sim_ops_def fresh_world_def quiet_def valid_port_def)

subsection \<open>The port scan\<close>

lemma portInUse_steady:
  assumes "steady_ports ops host occ" and "valid_port prt"
  shows "fst (portInUse ops prt host w) = Inr (occ prt)"
proof -
  obtain ev evs s where c: "connect ops (os w) prt host probe_timeout = (ev, evs, s)"
    by (cases "connect ops (os w) prt host probe_timeout")
  have "(ev = Connected) = occ prt"
    using assms(1) c unfolding steady_ports_def by (metis fst_conv)
  then show ?thesis
    by (simp add: portInUse_valid [OF assms(2) c] resolved_iff)
qed

lemma scanPorts_invalid:
  "\<not> valid_port a \<Longrightarrow> scanPorts ops host d a w = (Inl (BadPort a), w)"
  by (simp add: scanPorts.simps [of ops host d a w] portInUse_invalid)

lemma scanPorts_free_here:
  "portInUse ops a host w = (Inr False, w1) \<Longrightarrow> scanPorts ops host d a w = (Inr a, w1)"
  by (simp add: scanPorts.simps [of ops host d a w])

lemma scanPorts_thrown:
  "portInUse ops a host w = (Inl e, w1) \<Longrightarrow> scanPorts ops host d a w = (Inl e, w1)"
  by (simp add: scanPorts.simps [of ops host d a w])

lemma scanPorts_busy_last:
  "portInUse ops a host w = (Inr True, w1) \<Longrightarrow> a + 1 > d + 100
   \<Longrightarrow> scanPorts ops host d a w = (Inl no_ports, logmsg Info (in_use_msg (a + 1)) w1)"
  by (simp add: scanPorts.simps [of ops host d a w] Let_def)

lemma scanPorts_busy_next:
  "portInUse ops a host w = (Inr True, w1) \<Longrightarrow> \<not> a + 1 > d + 100
   \<Longrightarrow> scanPorts ops host d a w
       = scanPorts ops host d (a + 1) (logmsg Info (in_use_msg (a + 1)) w1)"
  by (simp add: scanPorts.simps [of ops host d a w] Let_def)

lemma scanPorts_exhausted:
  shows "steady_ports ops host occ \<Longrightarrow> 0 \<le> a \<Longrightarrow> a \<le> d + 100 \<Longrightarrow> d + 100 \<le> 65535
         \<Longrightarrow> (\<forall>q. a \<le> q \<and> q \<le> d + 100 \<longrightarrow> occ q)
         \<Longrightarrow> fst (scanPorts ops host d a w) = Inl no_ports"
proof (induction ops host d a w rule: scanPorts.induct)
  case (1 ops host d a w)
  have v: "valid_port a" using "1.prems" by (simp add: valid_port_def)
  obtain probed w1 where p0: "portInUse ops a host w = (probed, w1)"
    by (cases "portInUse ops a host w")
  have "probed = Inr (occ a)" using portInUse_steady [OF "1.prems"(1) v, of w] p0 by simp
  with "1.prems" p0 have p: "portInUse ops a host w = (Inr True, w1)" by simp
  show ?case
  proof (cases "a + 1 > d + 100")
    case True
    then show ?thesis by (simp add: scanPorts_busy_last [OF p])
  next
    case False
    have "fst (scanPorts ops host d (a + 1) (logmsg Info (in_use_msg (a + 1)) w1)) = Inl no_ports"
      using "1.IH" [OF refl p [symmetric] refl _ refl False "1.prems"(1)] False "1.prems" by simp
    then show ?thesis by (simp add: scanPorts_busy_next [OF p False])
  qed
qed

lemma scanPorts_first_free:
  shows "steady_ports ops host occ \<Longrightarrow> 0 \<le> a \<Longrightarrow> a \<le> q \<Longrightarrow> q \<le> d + 100 \<Longrightarrow> q \<le> 65535
         \<Longrightarrow> \<not> occ q \<Longrightarrow> (\<forall>q'. a \<le> q' \<and> q' < q \<longrightarrow> occ q')
         \<Longrightarrow> fst (scanPorts ops host d a w) = Inr q"
proof (induction ops host d a w rule: scanPorts.induct)
  case (1 ops host d a w)
  have v: "valid_port a" using "1.prems" by (simp add: valid_port_def)
  obtain probed w1 where p0: "portInUse ops a host w = (probed, w1)"
    by (cases "portInUse ops a host w")
  have pr: "probed = Inr (occ a)" using portInUse_steady [OF "1.prems"(1) v, of w] p0 by simp
  show ?case
  proof (cases "a = q")
    case True
    with pr "1.prems" p0 have "portInUse ops a host w = (Inr False, w1)" by simp
    from scanPorts_free_here [OF this] True show ?thesis by simp
  next
    case False
    with "1.prems" have lt: "a < q" by simp
    with "1.prems" pr p0 have p: "portInUse ops a host w = (Inr True, w1)" by simp
    from lt "1.prems" have nb: "\<not> a + 1 > d + 100" by simp
    have "fst (scanPorts ops host d (a + 1) (logmsg Info (in_use_msg (a + 1)) w1)) = Inr q"
      using "1.IH" [OF refl p [symmetric] refl _ refl nb "1.prems"(1)] lt "1.prems" by simp
    then show ?thesis by (simp add: scanPorts_busy_next [OF p nb])
  qed
qed

lemma scanPorts_past_last_port:
  shows "steady_ports ops host occ \<Longrightarrow> 0 \<le> a \<Longrightarrow> a \<le> 65536 \<Longrightarrow> 65535 < d + 100
         \<Longrightarrow> (\<forall>q. a \<le> q \<and> q \<le> 65535 \<longrightarrow> occ q)
         \<Longrightarrow> fst (scanPorts ops host d a w) = Inl (BadPort 65536)"
proof (induction ops host d a w rule: scanPorts.induct)
  case (1 ops host d a w)
  show ?case
  proof (cases "a = 65536")
    case True
    then show ?thesis by (simp add: scanPorts_invalid valid_port_def)
  next
    case False
    with "1.prems" have le: "a \<le> 65535" by simp
    then have v: "valid_port a" using "1.prems" by (simp add: valid_port_def)
    obtain probed w1 where p0: "portInUse ops a host w = (probed, w1)"
      by (cases "portInUse ops a host w")
    have "probed = Inr (occ a)" using portInUse_steady [OF "1.prems"(1) v, of w] p0 by simp
    with "1.prems" le p0 have p: "portInUse ops a host w = (Inr True, w1)" by simp
    from le "1.prems" have nb: "\<not> a + 1 > d + 100" by simp
    have "fst (scanPorts ops host d (a + 1) (logmsg Info (in_use_msg (a + 1)) w1))
            = Inl (BadPort 65536)"
      using "1.IH" [OF refl p [symmetric] refl _ refl nb "1.prems"(1)] le "1.prems" by simp
    then show ?thesis by (simp add: scanPorts_busy_next [OF p nb])
  qed
qed

lemma sim_steady: "steady_ports (sim_ops plat py pk busy) host (\<lambda>q. q \<in> set busy)"
  by (simp add: steady_ports_def sim_ops_def)

text \<open>
  Claim C2, as amended. For every desired port and host, with the set
  of occupied ports not changing during the scan, the port loop of
  \<^verbatim>\<open>startServer\<close> behaves as follows. If the desired port is a port and
  \<open>desiredPort + 100\<close> is at most 65535: when every port from \<open>desiredPort\<close> to
  \<open>desiredPort + 100\<close> is occupied the loop throws "No available ports found".
  If \<open>q\<close> is a free port (at most 65535) in that range with every port of the
  range below it occupied, the loop returns exactly \<open>q\<close>. If the desired port
  is a port above 65435 and every port from it to 65535 is occupied, the loop
  throws the \<^verbatim>\<open>RangeError\<close> of the probe of 65536 instead of either outcome; and
  a desired number that is not a port makes the first probe throw.
\<close>

theorem scanPorts_smallest_free_or_exhausted:
  assumes "steady_ports ops host occ"
  shows "(0 \<le> d \<and> d + 100 \<le> 65535 \<and> (\<forall>q. d \<le> q \<and> q \<le> d + 100 \<longrightarrow> occ q)
            \<longrightarrow> fst (scanPorts ops host d d w) = Inl (Thrown ''No available ports found''))
         \<and> (\<forall>q. 0 \<le> d \<and> d \<le> q \<and> q \<le> d + 100 \<and> q \<le> 65535 \<and> \<not> occ q
                  \<and> (\<forall>q'. d \<le> q' \<and> q' < q \<longrightarrow> occ q')
                \<longrightarrow> fst (scanPorts ops host d d w) = Inr q)
         \<and> (0 \<le> d \<and> d \<le> 65535 \<and> 65535 < d + 100 \<and> (\<forall>q. d \<le> q \<and> q \<le> 65535 \<longrightarrow> occ q)
                \<longrightarrow> fst (scanPorts ops host d d w) = Inl (BadPort 65536))
         \<and> (d < 0 \<or> 65535 < d \<longrightarrow> fst (scanPorts ops host d d w) = Inl (BadPort d))"
proof (intro conjI allI impI)
  assume "0 \<le> d \<and> d + 100 \<le> 65535 \<and> (\<forall>q. d \<le> q \<and> q \<le> d + 100 \<longrightarrow> occ q)"
  then show "fst (scanPorts ops host d d w) = Inl (Thrown ''No available ports found'')"
    using scanPorts_exhausted [OF assms, of d d w] by (simp add: no_ports_def)
next
  fix q
  assume "0 \<le> d \<and> d \<le> q \<and> q \<le> d + 100 \<and> q \<le> 65535 \<and> \<not> occ q
          \<and> (\<forall>q'. d \<le> q' \<and> q' < q \<longrightarrow> occ q')"
  then show "fst (scanPorts ops host d d w) = Inr q"
    using scanPorts_first_free [OF assms, of d q d w] by simp
next
  assume "0 \<le> d \<and> d \<le> 65535 \<and> 65535 < d + 100 \<and> (\<forall>q. d \<le> q \<and> q \<le> 65535 \<longrightarrow> occ q)"
  then show "fst (scanPorts ops host d d w) = Inl (BadPort 65536)"
    using scanPorts_past_last_port [OF assms, of d d w] by simp
next
  assume "d < 0 \<or> 65535 < d"
  then have "\<not> valid_port d" by (auto simp: valid_port_def)
  then show "fst (scanPorts ops host d d w) = Inl (BadPort d)"
    by (simp add: scanPorts_invalid)
qed

theorem scanPorts_smallest_free_or_exhausted_witness:
  "fst (scanPorts (sim_ops NotWin32 True True [8080 .. 8090]) ''127.0.0.1'' 8080 8080 (fresh_world quiet))
     = Inr 8091
   \<and> fst (scanPorts (sim_ops NotWin32 True True [8080 .. 8180]) ''127.0.0.1'' 8080 8080 (fresh_world quiet))
     = Inl (Thrown ''No available ports found'')
   \<and> fst (scanPorts (sim_ops NotWin32 True True [65500 .. 65535]) ''127.0.0.1'' 65500 65500 (fresh_world quiet))
     = Inl (BadPort 65536)"
proof -
  have free: "0 \<le> (8080::int) \<and> 8080 \<le> (8091::int) \<and> (8091::int) \<le> 8080 + 100
              \<and> (8091::int) \<le> 65535 \<and> 8091 \<notin> set [8080 .. 8090]
              \<and> (\<forall>q'. 8080 \<le> q' \<and> q' < 8091 \<longrightarrow> q' \<in> set [8080 .. 8090])"
    by (simp only: set_upto atLeastAtMost_iff) arith
  have full: "0 \<le> (8080::int) \<and> (8080::int) + 100 \<le> 65535
              \<and> (\<forall>q::int. 8080 \<le> q \<and> q \<le> 8080 + 100 \<longrightarrow> q \<in> set [8080 .. 8180])"
    by (simp only: set_upto atLeastAtMost_iff) arith
  have high: "0 \<le> (65500::int) \<and> (65500::int) \<le> 65535 \<and> 65535 < (65500::int) + 100
              \<and> (\<forall>q::int. 65500 \<le> q \<and> q \<le> 65535 \<longrightarrow> q \<in> set [65500 .. 65535])"
    by (simp only: set_upto atLeastAtMost_iff) arith
  have a: "fst (scanPorts (sim_ops NotWin32 True True [8080 .. 8090]) ''127.0.0.1'' 8080 8080
                 (fresh_world quiet)) = Inr 8091"
    using scanPorts_smallest_free_or_exhausted
            [OF sim_steady, of 8080 "[8080 .. 8090]" NotWin32 True True "''127.0.0.1''" "fresh_world quiet"]
          free
    by blast
  have b: "fst (scanPorts (sim_ops NotWin32 True True [8080 .. 8180]) ''127.0.0.1'' 8080 8080
                 (fresh_world quiet)) = Inl (Thrown ''No available ports found'')"
    using scanPorts_smallest_free_or_exhausted
            [OF sim_steady, of 8080 "[8080 .. 8180]" NotWin32 True True "''127.0.0.1''" "fresh_world quiet"]
          full
    by blast
  have c: "fst (scanPorts (sim_ops NotWin32 True True [65500 .. 65535]) ''127.0.0.1'' 65500 65500
                 (fresh_world quiet)) = Inl (BadPort 65536)"
    using scanPorts_smallest_free_or_exhausted
            [OF sim_steady, of 65500 "[65500 .. 65535]" NotWin32 True True "''127.0.0.1''" "fresh_world quiet"]
          high
    by blast
  from a b c show ?thesis by (intro conjI)
qed

lemma sim_connect:
  "connect (sim_ops plat py pk busy) s prt host ms
     = (if prt \<in> set busy then Connected else Failed ''ECONNREFUSED'', [], s)"
  by (simp add: sim_ops_def)

text \<open>
  Claim C2 as stated fails for a desired port above 65435. With the desired
  port 65535 occupied, 65536 is the smallest number of the range with no
  listener; the loop does not return it and does not report exhaustion: the
  probe of 65536 throws.
\<close>

theorem scan_from_last_port_throws_range_error:
  "fst (scanPorts (sim_ops NotWin32 True True [65535]) ''127.0.0.1'' 65535 65535 (fresh_world quiet))
     = Inl (BadPort 65536)"
proof -
  have v: "valid_port 65535" by (simp add: valid_port_def)
  have p: "portInUse (sim_ops NotWin32 True True [65535]) 65535 ''127.0.0.1'' (fresh_world quiet)
             = (Inr True, deliver [] (emit (AConnect 65535 ''127.0.0.1'' True)
                                       ((fresh_world quiet)\<lparr>os := quiet\<rparr>)))"
    using portInUse_valid [OF v, of "sim_ops NotWin32 True True [65535]" "fresh_world quiet"
                                    "''127.0.0.1''" Connected "[]" quiet]
    by (simp add: sim_connect fresh_world_def)
  have nb: "\<not> (65535::int) + 1 > 65535 + 100" by simp
  show ?thesis
    unfolding scanPorts_busy_next [OF p nb]
    by (simp add: scanPorts_invalid valid_port_def)
qed

subsection \<open>Termination on Windows\<close>

lemma commands_append: "commands (t @ u) = commands t @ commands u"
  by (induction t rule: commands.induct) simp_all

lemma commands_listener: "list_all listener_action t \<Longrightarrow> commands t = []"
  by (induction t rule: commands.induct) simp_all

lemma pauses_listener: "list_all listener_action t \<Longrightarrow> pauses_before c t = []"
  by (induction c t rule: pauses_before.induct) simp_all

lemma pauses_append:
  "pauses_before c (t @ u)
     = (if c \<in> set (commands t) then pauses_before c t else pauses_before c t @ pauses_before c u)"
  by (induction c t rule: pauses_before.induct) simp_all

lemma probe_listener: "list_all listener_action t \<Longrightarrow> list_all (\<lambda>a. \<not> is_probe a) t"
  by (induction t) (auto elim: listener_action.elims)

lemma deliver_trace:
  "\<exists>t. trace (deliver evs w) = trace w @ t \<and> list_all listener_action t"
  using step_deliver [of w evs] unfolding step_def by blast

lemma dispatch_os [simp]: "os (dispatch w ev) = os w"
  by (cases ev)
     (simp_all add: emit_def push_line_def appendLog_def on_close_def on_error_def Let_def)

lemma deliver_os [simp]: "os (deliver evs w) = os w"
  unfolding deliver_def by (induction evs arbitrary: w) simp_all

lemma sleep_trace:
  "\<exists>t. trace (sleep ops ms w) = trace w @ ASleep ms # t \<and> list_all listener_action t"
proof -
  obtain evs s where e: "timer ops (os w) ms = (evs, s)" by (cases "timer ops (os w) ms")
  from deliver_trace [of evs "emit (ASleep ms) (w\<lparr>os := s\<rparr>)"] e show ?thesis
    by (simp add: sleep_def emit_def)
qed

lemma sleep_os: "os (sleep ops ms w) = snd (timer ops (os w) ms)"
  by (cases "timer ops (os w) ms") (simp add: sleep_def emit_def)

text \<open>The trace of one command of \<^verbatim>\<open>terminateWindows\<close>.\<close>

lemma run_command_trace:
  "\<exists>t. trace (run_command ops p w cmd) = trace w @ AExec cmd (fst (execSync ops (os w) cmd)) # t
       \<and> commands t = [] \<and> list_all (\<lambda>a. \<not> is_probe a) t
       \<and> pauses_before c t = (if fst (execSync ops (os w) cmd) then [500] else [])"
proof -
  obtain ok s where e: "execSync ops (os w) cmd = (ok, s)" by (cases "execSync ops (os w) cmd")
  let ?w1 = "emit (AExec cmd ok) (w\<lparr>os := s\<rparr>)"
  show ?thesis
  proof (cases ok)
    case True
    obtain t where t: "trace (sleep ops 500 ?w1) = trace ?w1 @ ASleep 500 # t"
      "list_all listener_action t"
      using sleep_trace by blast
    have "trace (run_command ops p w cmd) = trace w @ AExec cmd True # (ASleep 500 # t)"
      using e True t(1) by (simp add: run_command_def emit_def)
    moreover have "commands (ASleep 500 # t) = []" using t(2) by (simp add: commands_listener)
    moreover have "list_all (\<lambda>a. \<not> is_probe a) (ASleep 500 # t)"
      using probe_listener [OF t(2)] by simp
    moreover have "pauses_before c (ASleep 500 # t) = [500]"
      using t(2) by (simp add: pauses_listener)
    ultimately show ?thesis using e True by auto
  next
    case False
    have "trace (run_command ops p w cmd) = trace w @ AExec cmd False # [ALog Error (failed_msg p)]"
      using e False by (simp add: run_command_def emit_def logmsg_def)
    then show ?thesis using e False by simp
  qed
qed

lemma run_command_os:
  "os (run_command ops p w cmd)
     = (if fst (execSync ops (os w) cmd) then snd (timer ops (snd (execSync ops (os w) cmd)) 500)
        else snd (execSync ops (os w) cmd))"
  by (cases "execSync ops (os w) cmd")
     (simp add: run_command_def Let_def sleep_os emit_def logmsg_def)

lemma isProcessRunning_trace:
  "trace (snd (isProcessRunning ops p w)) = trace w @ [AProbe p (kill0 ops (os w) p)]"
  by (simp add: isProcessRunning_def Let_def emit_def)

lemma terminateWindows_graceful_trace:
  "\<exists>t. trace (terminateWindows ops p False w) = trace w @ t
       \<and> commands t = [taskkill p False, taskkill p True]
       \<and> list_all (\<lambda>a. \<not> is_probe a) t
       \<and> pauses_before (taskkill p True) t
           = (if fst (execSync ops (os w) (taskkill p False)) then [500] else [])"
proof -
  let ?c1 = "taskkill p False" and ?c2 = "taskkill p True"
  let ?w1 = "run_command ops p w ?c1"
  have ne: "?c2 \<noteq> ?c1" by (simp add: taskkill_def)
  obtain t1 where t1: "trace ?w1 = trace w @ AExec ?c1 (fst (execSync ops (os w) ?c1)) # t1"
    "commands t1 = []" "list_all (\<lambda>a. \<not> is_probe a) t1"
    "pauses_before ?c2 t1 = (if fst (execSync ops (os w) ?c1) then [500] else [])"
    using run_command_trace [of ops p w ?c1 ?c2] by blast
  obtain t2 where t2: "trace (run_command ops p ?w1 ?c2)
                         = trace ?w1 @ AExec ?c2 (fst (execSync ops (os ?w1) ?c2)) # t2"
    "commands t2 = []" "list_all (\<lambda>a. \<not> is_probe a) t2"
    using run_command_trace [of ops p ?w1 ?c2 ?c2] by blast
  let ?t = "AExec ?c1 (fst (execSync ops (os w) ?c1)) # t1
            @ AExec ?c2 (fst (execSync ops (os ?w1) ?c2)) # t2"
  have "trace (terminateWindows ops p False w) = trace w @ ?t"
    using t1(1) t2(1) by (simp add: terminateWindows_def)
  moreover have "commands ?t = [?c1, ?c2]"
    using t1(2) t2(2) by (simp add: commands_append)
  moreover have "list_all (\<lambda>a. \<not> is_probe a) ?t"
    using t1(3) t2(3) by simp
  moreover have "pauses_before ?c2 ?t = (if fst (execSync ops (os w) ?c1) then [500] else [])"
    using t1(2,4) ne by (simp add: pauses_append)
  ultimately show ?thesis by blast
qed


lemma retry_loop_first:
  assumes "attempt \<le> maxRetries"
  shows "\<exists>u. trace (retry_loop ops p force attempt w)
               = trace (snd (attempt_once ops p force w)) @ u"
proof -
  obtain running w1 where a: "attempt_once ops p force w = (running, w1)"
    by (cases "attempt_once ops p force w")
  let ?w2 = "if attempt < maxRetries then sleep ops 1000 w1 else w1"
  have "step controller_action w1 ?w2" by (simp add: step_sleep step_refl)
  from step_trans [OF this step_retry_loop [of ?w2 ops p force "attempt + 1"]]
  obtain u where "trace (retry_loop ops p force (attempt + 1) ?w2) = trace w1 @ u"
    unfolding step_def by blast
  then show ?thesis
    using a assms
    by (cases running) (simp_all add: retry_loop.simps [of ops p force attempt w] logmsg_def emit_def)
qed

text \<open>
  Claim C5, as amended. On Windows (\<^verbatim>\<open>process.platform === "win32"\<close>), every
  non-forceful attempt of \<^verbatim>\<open>terminateProcessTree\<close> issues the cooperative
  command \<^verbatim>\<open>taskkill /PID p /T\<close> first and then, in the same attempt and
  without any liveness check in between, always issues the forced command
  \<^verbatim>\<open>taskkill /PID p /T /F\<close>, whether or not the process is still alive. The
  500 ms pause between the two takes place exactly when the cooperative
  command exits successfully. The liveness check follows the two commands.
  The first attempt of \<^verbatim>\<open>terminateProcessTree\<close> is such an attempt.
\<close>

theorem windows_graceful_attempt_issues_both_commands:
  assumes "platform ops = Win32"
  shows "(\<exists>t. trace (snd (attempt_once ops p False w))
                = trace w @ t @ [AProbe p (fst (attempt_once ops p False w))]
              \<and> commands t = [''taskkill /PID '' @ show_nat p @ '' /T'',
                              ''taskkill /PID '' @ show_nat p @ '' /T /F'']
              \<and> list_all (\<lambda>a. \<not> is_probe a) t
              \<and> pauses_before (''taskkill /PID '' @ show_nat p @ '' /T /F'') t
                  = (if fst (execSync ops (os w) (''taskkill /PID '' @ show_nat p @ '' /T''))
                     then [500] else []))
         \<and> (\<exists>u. trace (terminateProcessTree ops p False w)
                  = trace (snd (attempt_once ops p False w)) @ u)"
proof -
  let ?w1 = "terminateWindows ops p False w"
  obtain t where t: "trace ?w1 = trace w @ t"
    "commands t = [taskkill p False, taskkill p True]"
    "list_all (\<lambda>a. \<not> is_probe a) t"
    "pauses_before (taskkill p True) t
       = (if fst (execSync ops (os w) (taskkill p False)) then [500] else [])"
    using terminateWindows_graceful_trace by blast
  have a: "attempt_once ops p False w = isProcessRunning ops p ?w1"
    using assms by (simp add: attempt_once_def)
  have "trace (snd (attempt_once ops p False w))
          = trace w @ t @ [AProbe p (fst (attempt_once ops p False w))]"
    using t(1) by (simp add: a isProcessRunning_def Let_def emit_def)
  with t(2,3,4) have first: "\<exists>t. trace (snd (attempt_once ops p False w))
                = trace w @ t @ [AProbe p (fst (attempt_once ops p False w))]
              \<and> commands t = [''taskkill /PID '' @ show_nat p @ '' /T'',
                              ''taskkill /PID '' @ show_nat p @ '' /T /F'']
              \<and> list_all (\<lambda>a. \<not> is_probe a) t
              \<and> pauses_before (''taskkill /PID '' @ show_nat p @ '' /T /F'') t
                  = (if fst (execSync ops (os w) (''taskkill /PID '' @ show_nat p @ '' /T''))
                     then [500] else [])"
    by (simp add: taskkill_def)
  show ?thesis
    using first retry_loop_first [of 1 ops p False w]
    by (simp add: terminateProcessTree_def maxRetries_def)
qed

lemma show_nat_100: "show_nat 100 = ''100''"
  by (simp add: show_nat.simps digit_char_def)

theorem windows_graceful_attempt_issues_both_commands_witness:
  "platform (sim_ops Win32 True True []) = Win32
   \<and> (\<exists>t. trace (snd (attempt_once (sim_ops Win32 True True []) 100 False
                        (fresh_world (quiet\<lparr>live := [100]\<rparr>))))
             = t @ [AProbe 100 False]
           \<and> commands t = [''taskkill /PID 100 /T'', ''taskkill /PID 100 /T /F'']
           \<and> pauses_before ''taskkill /PID 100 /T /F'' t = [500])"
proof -
  have p: "platform (sim_ops Win32 True True []) = Win32" by (simp add: sim_ops_def)
  have ok: "fst (execSync (sim_ops Win32 True True []) (os (fresh_world (quiet\<lparr>live := [100]\<rparr>)))
                  ''taskkill /PID 100 /T'')"
    by (simp add: sim_ops_def sim_exec_def fresh_world_def quiet_def taskkill_def show_nat_100)
  have dead: "\<not> fst (attempt_once (sim_ops Win32 True True []) 100 False
                       (fresh_world (quiet\<lparr>live := [100]\<rparr>)))"
    by (simp add: attempt_once_def isProcessRunning_def Let_def terminateWindows_def
          run_command_os sim_ops_def sim_exec_def fresh_world_def quiet_def taskkill_def show_nat_100)
  show ?thesis
    using windows_graceful_attempt_issues_both_commands
            [OF p, of 100 "fresh_world (quiet\<lparr>live := [100]\<rparr>)"] p ok dead
    by (auto simp: show_nat_100 fresh_world_def)
qed

text \<open>
  Claim C5 as stated fails: the process with pid 100 is gone once the
  cooperative command has run, and the forced command is issued all the same.
\<close>

theorem forced_taskkill_issued_to_dead_process:
  "\<not> kill0 (sim_ops Win32 True True [])
        (snd (execSync (sim_ops Win32 True True []) (quiet\<lparr>live := [100]\<rparr>) ''taskkill /PID 100 /T''))
        100
   \<and> commands (trace (snd (attempt_once (sim_ops Win32 True True []) 100 False
                             (fresh_world (quiet\<lparr>live := [100]\<rparr>)))))
       = [''taskkill /PID 100 /T'', ''taskkill /PID 100 /T /F'']"
  by (simp add: attempt_once_def isProcessRunning_def Let_def terminateWindows_def
        run_command_def sleep_def deliver_def emit_def logmsg_def
        sim_ops_def sim_exec_def fresh_world_def quiet_def taskkill_def show_nat_100)

subsection \<open>Termination of a dead process\<close>

lemma isProcessRunning_os [simp]: "os (snd (isProcessRunning ops q w)) = os w"
  by (simp add: isProcessRunning_def Let_def emit_def)

lemma isProcessRunning_fst [simp]: "fst (isProcessRunning ops q w) = kill0 ops (os w) q"
  by (simp add: isProcessRunning_def Let_def)

lemma logmsg_os [simp]: "os (logmsg l m w) = os w"
  by (simp add: logmsg_def emit_def)

lemma emit_os [simp]: "os (emit a w) = os w"
  by (simp add: emit_def)

lemma inv_sleep:
  "os_invariant ops P \<Longrightarrow> P (os w) \<Longrightarrow> P (os (sleep ops ms w))"
  by (simp add: sleep_os os_invariant_def)

lemma inv_run_command:
  assumes "os_invariant ops P" and "P (os w)"
  shows "P (os (run_command ops q w cmd))"
proof -
  have 1: "P (snd (execSync ops (os w) cmd))"
    using assms unfolding os_invariant_def by blast
  then have "P (snd (timer ops (snd (execSync ops (os w) cmd)) 500))"
    using assms(1) unfolding os_invariant_def by blast
  with 1 show ?thesis by (simp add: run_command_os)
qed

lemma inv_send_signal_after_kill:
  assumes d: "os_invariant ops P"
    and n: "P (snd (process_kill ops (os w) (- int q) sg))"
  shows "P (os (send_signal ops q w sg))"
proof -
  obtain ok s where e: "process_kill ops (os w) (- int q) sg = (ok, s)"
    by (cases "process_kill ops (os w) (- int q) sg")
  let ?w1 = "emit (AKill (- int q) sg ok) (w\<lparr>os := s\<rparr>)"
  let ?w2 = "sleep ops 500 ?w1"
  obtain running w3 where r: "isProcessRunning ops q ?w2 = (running, w3)"
    by (cases "isProcessRunning ops q ?w2")
  obtain ok' s' where e': "process_kill ops (os w3) (int q) sg = (ok', s')"
    by (cases "process_kill ops (os w3) (int q) sg")
  let ?w4 = "emit (AKill (int q) sg ok') (w3\<lparr>os := s'\<rparr>)"
  have 1: "P s" using n e by simp
  then have 2: "P (os ?w2)"
    using inv_sleep [OF d, of ?w1 500] by simp
  have "os w3 = os ?w2" using r isProcessRunning_os [of ops q ?w2] by simp
  with 2 have 3: "P (os w3)" by simp
  then have 4: "P s'"
    using d e' unfolding os_invariant_def by (metis snd_conv)
  then have 5: "P (os (sleep ops 500 ?w4))"
    using inv_sleep [OF d, of ?w4 500] by simp
  show ?thesis
    using e r e' 1 3 4 5 by (cases ok; cases running; cases ok') (simp_all add: send_signal_def Let_def)
qed

lemma inv_send_signal:
  assumes d: "os_invariant ops P" and n: "P (os w)"
  shows "P (os (send_signal ops q w sg))"
proof (rule inv_send_signal_after_kill [OF d])
  show "P (snd (process_kill ops (os w) (- int q) sg))"
    using d n unfolding os_invariant_def by blast
qed

lemma inv_foldl:
  assumes "\<And>v x. P (os v) \<Longrightarrow> P (os (f v x))"
  shows "P (os w) \<Longrightarrow> P (os (foldl f w xs))"
  by (induction xs arbitrary: w) (simp_all add: assms)

lemma inv_terminateWindows:
  assumes "os_invariant ops P" and "P (os w)"
  shows "P (os (terminateWindows ops q force w))"
  unfolding terminateWindows_def Let_def
  using inv_foldl [of P "run_command ops q", OF inv_run_command [OF assms(1)] assms(2)]
  by blast

lemma inv_terminateUnix:
  assumes "os_invariant ops P" and "P (os w)"
  shows "P (os (terminateUnix ops q force w))"
  unfolding terminateUnix_def Let_def
  using inv_foldl [of P "send_signal ops q", OF inv_send_signal [OF assms(1)] assms(2)]
  by blast

lemma death_is_final_invariant:
  "death_is_final ops p \<Longrightarrow> os_invariant ops (\<lambda>s. \<not> kill0 ops s p)"
  unfolding death_is_final_def os_invariant_def by blast

lemma dead_sleep:
  "death_is_final ops p \<Longrightarrow> \<not> kill0 ops (os w) p \<Longrightarrow> \<not> kill0 ops (os (sleep ops ms w)) p"
  using inv_sleep [OF death_is_final_invariant, of ops p w ms] by simp

lemma dead_send_signal:
  assumes d: "death_is_final ops p" and n: "\<not> kill0 ops (os w) p"
  shows "\<not> kill0 ops (os (send_signal ops q w sg)) p"
  using inv_send_signal [OF death_is_final_invariant [OF d], of w q sg] n by simp

lemma dead_terminateWindows:
  assumes "death_is_final ops p" and "\<not> kill0 ops (os w) p"
  shows "\<not> kill0 ops (os (terminateWindows ops q force w)) p"
  using inv_terminateWindows [OF death_is_final_invariant [OF assms(1)], of w q force] assms(2)
  by simp

lemma dead_terminateUnix:
  assumes "death_is_final ops p" and "\<not> kill0 ops (os w) p"
  shows "\<not> kill0 ops (os (terminateUnix ops q force w)) p"
  using inv_terminateUnix [OF death_is_final_invariant [OF assms(1)], of w q force] assms(2)
  by simp

lemma trace_terminate:
  "\<exists>t. trace (if platform ops = Win32 then terminateWindows ops p force w
              else terminateUnix ops p force w) = trace w @ t \<and> list_all attempt_action t"
  using step_terminateWindows [of w ops p force] step_terminateUnix [of w ops p force]
  unfolding step_def by auto

lemma retry_loop_dead:
  assumes "attempt \<le> maxRetries" and "\<not> fst (attempt_once ops p force w)"
  shows "retry_loop ops p force attempt w
           = logmsg Info (terminated_msg p) (snd (attempt_once ops p force w))"
  using assms
  by (cases "attempt_once ops p force w") (simp add: retry_loop.simps [of ops p force attempt w])

text \<open>
  Claim C7. If the liveness check reports the process dead when
  \<^verbatim>\<open>terminateProcessTree\<close> is called, and a dead process stays dead, then the
  call makes one attempt, finds the process dead in the check after it, logs
  the success message and returns: it never waits the 1000 ms that precede a
  retry, and its trace ends with the failed liveness probe and the success
  message. This holds on both platforms, forceful or not.
\<close>

theorem terminateProcessTree_dead_no_retry:
  assumes "\<not> kill0 ops (os w) p" and "death_is_final ops p"
  shows "\<not> fst (attempt_once ops p force w)
         \<and> terminateProcessTree ops p force w
             = logmsg Info (''Successfully terminated process tree (PID: '' @ show_nat p @ '')'')
                 (snd (attempt_once ops p force w))
         \<and> (\<exists>t. trace (terminateProcessTree ops p force w)
                  = trace w @ t @ [AProbe p False,
                       ALog Info (''Successfully terminated process tree (PID: '' @ show_nat p @ '')'')]
                \<and> ASleep 1000 \<notin> set t
                \<and> list_all attempt_action t)"
proof -
  let ?w1 = "if platform ops = Win32 then terminateWindows ops p force w
             else terminateUnix ops p force w"
  have dead: "\<not> kill0 ops (os ?w1) p"
    using dead_terminateWindows [OF assms(2,1)] dead_terminateUnix [OF assms(2,1)] by simp
  have a: "attempt_once ops p force w = (False, emit (AProbe p False) ?w1)"
    using dead by (simp add: attempt_once_def isProcessRunning_def Let_def)
  have r: "terminateProcessTree ops p force w
             = logmsg Info (terminated_msg p) (emit (AProbe p False) ?w1)"
    using a retry_loop_dead [of 1 ops p force w]
    by (simp add: terminateProcessTree_def maxRetries_def)
  obtain t where t: "trace ?w1 = trace w @ t" "list_all attempt_action t"
    using trace_terminate by blast
  have "ASleep 1000 \<notin> set t"
    using t(2) by (auto simp: list_all_iff)
  moreover have "trace (terminateProcessTree ops p force w)
                   = trace w @ t @ [AProbe p False, ALog Info (terminated_msg p)]"
    using t(1) by (simp add: r logmsg_def emit_def)
  ultimately show ?thesis
    using a r t(2) by (simp add: terminated_msg_def)
qed

lemma sim_death_is_final: "death_is_final (sim_ops plat py pk busy) p"
  by (auto simp: death_is_final_def sim_ops_def sim_kill_def sim_exec_def Let_def)

theorem terminateProcessTree_dead_no_retry_witness:
  "\<not> kill0 (sim_ops NotWin32 True True []) (os (fresh_world quiet)) 100
   \<and> trace (terminateProcessTree (sim_ops NotWin32 True True []) 100 False (fresh_world quiet))
       = [AKill (- 100) SIGTERM False, ALog Error ''Failed to terminate process (PID: 100):'',
          AKill (- 100) SIGKILL False, ALog Error ''Failed to terminate process (PID: 100):'',
          AProbe 100 False, ALog Info ''Successfully terminated process tree (PID: 100)'']"
proof -
  have d: "\<not> kill0 (sim_ops NotWin32 True True []) (os (fresh_world quiet)) 100"
    by (simp add: sim_ops_def fresh_world_def quiet_def)
  have "terminateProcessTree (sim_ops NotWin32 True True []) 100 False (fresh_world quiet)
          = logmsg Info (''Successfully terminated process tree (PID: '' @ show_nat 100 @ '')'')
              (snd (attempt_once (sim_ops NotWin32 True True []) 100 False (fresh_world quiet)))"
    using terminateProcessTree_dead_no_retry [OF d sim_death_is_final, of False] by blast
  then have "trace (terminateProcessTree (sim_ops NotWin32 True True []) 100 False (fresh_world quiet))
       = [AKill (- 100) SIGTERM False, ALog Error ''Failed to terminate process (PID: 100):'',
          AKill (- 100) SIGKILL False, ALog Error ''Failed to terminate process (PID: 100):'',
          AProbe 100 False, ALog Info ''Successfully terminated process tree (PID: 100)'']"
    by (simp add: attempt_once_def terminateUnix_def send_signal_def isProcessRunning_def Let_def
          logmsg_def emit_def failed_msg_def show_nat_100
          sim_ops_def sim_kill_def fresh_world_def quiet_def)
  with d show ?thesis by blast
qed

subsection \<open>Facts about a stop and a launch\<close>

lemma inv_attempt_once:
  assumes "os_invariant ops P" and "P (os w)"
  shows "P (os (snd (attempt_once ops q force w)))"
  using inv_terminateWindows [OF assms] inv_terminateUnix [OF assms]
  by (simp add: attempt_once_def)

lemma inv_retry_loop:
  "os_invariant ops P \<Longrightarrow> P (os w) \<Longrightarrow> P (os (retry_loop ops q force attempt w))"
proof (induction ops q force attempt w rule: retry_loop.induct)
  case (1 ops q force attempt w)
  obtain running w1 where a: "attempt_once ops q force w = (running, w1)"
    by (cases "attempt_once ops q force w")
  have d1: "P (os w1)"
    using inv_attempt_once [OF "1.prems", of q force] a by simp
  show ?case
  proof (cases "attempt \<le> maxRetries")
    case False
    with "1.prems" show ?thesis by (simp add: retry_loop.simps [of ops q force attempt w])
  next
    case le: True
    show ?thesis
    proof (cases running)
      case False
      with le a d1 show ?thesis by (simp add: retry_loop.simps [of ops q force attempt w])
    next
      case True
      let ?w2 = "if attempt < maxRetries then sleep ops 1000 w1 else w1"
      have d2: "P (os ?w2)"
        using d1 inv_sleep [OF "1.prems"(1) d1] by simp
      have "P (os (retry_loop ops q force (attempt + 1) ?w2))"
        using "1.IH" [OF le refl a [symmetric] _ "1.prems"(1) d2] True by simp
      with le a True show ?thesis by (simp add: retry_loop.simps [of ops q force attempt w])
    qed
  qed
qed

lemma inv_terminateProcessTree:
  "os_invariant ops P \<Longrightarrow> P (os w) \<Longrightarrow> P (os (terminateProcessTree ops q force w))"
  by (simp add: terminateProcessTree_def inv_retry_loop)

lemma dead_terminateProcessTree:
  "death_is_final ops p \<Longrightarrow> \<not> kill0 ops (os w) p
   \<Longrightarrow> \<not> kill0 ops (os (terminateProcessTree ops q force w)) p"
  using inv_terminateProcessTree [OF death_is_final_invariant, of ops p w q force] by simp

lemma verify_pid_os [simp]: "os (verify_pid ops w p) = os w"
  by (simp add: verify_pid_def isProcessRunning_def Let_def emit_def logmsg_def)

lemma verify_loop_os [simp]: "os (foldl (verify_pid ops) w ps) = os w"
  by (induction ps arbitrary: w) simp_all

lemma verify_pid_arrays [simp]: "arrays (verify_pid ops w p) = arrays w"
  by (simp add: verify_pid_def isProcessRunning_def Let_def emit_def logmsg_def)

lemma verify_loop_arrays [simp]: "arrays (foldl (verify_pid ops) w ps) = arrays w"
  by (induction ps arbitrary: w) simp_all

lemma verify_pid_logs:
  "serverLogs (verify_pid ops w p) q
     = (if q = p \<and> \<not> kill0 ops (os w) p then None else serverLogs w q)"
  by (simp add: verify_pid_def isProcessRunning_def Let_def emit_def logmsg_def)

lemma verify_pid_pids:
  "serverPIDs (verify_pid ops w p)
     = (if kill0 ops (os w) p then serverPIDs w else set_delete p (serverPIDs w))"
  by (simp add: verify_pid_def isProcessRunning_def Let_def emit_def logmsg_def)

lemma verify_loop_logs:
  "serverLogs (foldl (verify_pid ops) w ps) q
     = (if q \<in> set ps \<and> \<not> kill0 ops (os w) q then None else serverLogs w q)"
  by (induction ps arbitrary: w) (auto simp: verify_pid_logs)

lemma verify_loop_pids:
  "set (serverPIDs (foldl (verify_pid ops) w ps))
     = {q \<in> set (serverPIDs w). q \<in> set ps \<longrightarrow> kill0 ops (os w) q}"
  by (induction ps arbitrary: w) (auto simp: verify_pid_pids)

lemma stopAllServers_idle:
  "serverPIDs w = [] \<Longrightarrow>
   stopAllServers ops w = logmsg Info ''No servers to stop.'' (logmsg Info ''Stopping all servers...'' w)"
  by (simp add: stopAllServers_def logmsg_def emit_def)

lemma step_stop_idle:
  assumes "serverPIDs w = []"
  shows "step controller_action w (stopAllServers ops w)"
  unfolding stopAllServers_idle [OF assms]
  by (rule step_trans [OF step_logmsg step_logmsg]) simp_all

text \<open>The state in which the last loop of \<^verbatim>\<open>stopAllServers\<close> starts.\<close>

lemma stopAllServers_unfold:
  assumes "serverPIDs w \<noteq> []"
  shows "\<exists>w3. stopAllServers ops w
               = logmsg Info (stopped_msg (length (serverPIDs w))
                                (length (serverPIDs (foldl (verify_pid ops) w3 (serverPIDs w)))))
                   (foldl (verify_pid ops) w3 (serverPIDs w))
             \<and> w3 = foldl (\<lambda>v p. terminateProcessTree ops p True v)
                      (sleep ops 2000
                        (foldl (\<lambda>v p. terminateProcessTree ops p False v)
                           (logmsg Info ''Stopping all servers...'' w) (serverPIDs w)))
                      (serverPIDs w)"
  using assms by (simp add: stopAllServers_def Let_def logmsg_def emit_def)

lemma step_stop_prefix:
  "step controller_action w
     (foldl (\<lambda>v p. terminateProcessTree ops p True v)
        (sleep ops 2000
          (foldl (\<lambda>v p. terminateProcessTree ops p False v)
             (logmsg Info ''Stopping all servers...'' w) ps))
        ps)"
proof -
  let ?w0 = "logmsg Info ''Stopping all servers...'' w"
  let ?w1 = "foldl (\<lambda>v p. terminateProcessTree ops p False v) ?w0 ps"
  let ?w2 = "sleep ops 2000 ?w1"
  let ?w3 = "foldl (\<lambda>v p. terminateProcessTree ops p True v) ?w2 ps"
  have 0: "step controller_action w ?w0" by (rule step_logmsg) simp
  have 1: "step controller_action ?w0 ?w1"
    by (rule step_foldl) (rule step_terminateProcessTree)
  have 2: "step controller_action ?w1 ?w2" by (rule step_sleep)
  have 3: "step controller_action ?w2 ?w3"
    by (rule step_foldl) (rule step_terminateProcessTree)
  show ?thesis by (rule step_trans [OF step_trans [OF step_trans [OF 0 1] 2] 3])
qed

text \<open>What \<^verbatim>\<open>stopAllServers\<close> does to the two registries and to the
  \<^verbatim>\<open>logLines\<close> arrays, in terms of the liveness of each pid in the state of
  the operating system that the last loop sees, which is the state when the
  function returns.\<close>

lemma stopAllServers_logs:
  "serverLogs (stopAllServers ops w) p
     = (if p \<in> set (serverPIDs w) \<and> \<not> kill0 ops (os (stopAllServers ops w)) p then None
        else serverLogs w p)"
proof (cases "serverPIDs w = []")
  case True
  then show ?thesis by (simp add: stopAllServers_idle logmsg_def emit_def)
next
  case False
  from stopAllServers_unfold [OF False, of ops] obtain w3 where
    s: "stopAllServers ops w
          = logmsg Info (stopped_msg (length (serverPIDs w))
                           (length (serverPIDs (foldl (verify_pid ops) w3 (serverPIDs w)))))
              (foldl (verify_pid ops) w3 (serverPIDs w))"
    and w3: "w3 = foldl (\<lambda>v p. terminateProcessTree ops p True v)
                      (sleep ops 2000
                        (foldl (\<lambda>v p. terminateProcessTree ops p False v)
                           (logmsg Info ''Stopping all servers...'' w) (serverPIDs w)))
                      (serverPIDs w)"
    by blast
  have "step controller_action w w3" unfolding w3 by (rule step_stop_prefix)
  then have l3: "serverLogs w3 = serverLogs w" unfolding step_def by blast
  have o: "os (stopAllServers ops w) = os w3" by (simp add: s)
  show ?thesis
    unfolding o by (simp add: s logmsg_def emit_def verify_loop_logs l3)
qed


lemma stopAllServers_pids:
  "set (serverPIDs (stopAllServers ops w))
     \<subseteq> {q \<in> set (serverPIDs w). kill0 ops (os (stopAllServers ops w)) q}"
proof (cases "serverPIDs w = []")
  case True
  then show ?thesis by (simp add: stopAllServers_idle logmsg_def emit_def)
next
  case False
  from stopAllServers_unfold [OF False, of ops] obtain w3 where
    s: "stopAllServers ops w
          = logmsg Info (stopped_msg (length (serverPIDs w))
                           (length (serverPIDs (foldl (verify_pid ops) w3 (serverPIDs w)))))
              (foldl (verify_pid ops) w3 (serverPIDs w))"
    and w3: "w3 = foldl (\<lambda>v p. terminateProcessTree ops p True v)
                      (sleep ops 2000
                        (foldl (\<lambda>v p. terminateProcessTree ops p False v)
                           (logmsg Info ''Stopping all servers...'' w) (serverPIDs w)))
                      (serverPIDs w)"
    by blast
  have "step controller_action w w3" unfolding w3 by (rule step_stop_prefix)
  then have sub: "set (serverPIDs w3) \<subseteq> set (serverPIDs w)" unfolding step_def by blast
  have o: "os (stopAllServers ops w) = os w3" by (simp add: s)
  have p: "serverPIDs (stopAllServers ops w) = serverPIDs (foldl (verify_pid ops) w3 (serverPIDs w))"
    by (simp add: s logmsg_def emit_def)
  show ?thesis
    unfolding o p verify_loop_pids using sub by blast
qed

lemma stopAllServers_dead_forgotten:
  assumes "p \<in> set (serverPIDs w)" and "\<not> kill0 ops (os (stopAllServers ops w)) p"
  shows "serverLogs (stopAllServers ops w) p = None"
    and "p \<notin> set (serverPIDs (stopAllServers ops w))"
  using assms stopAllServers_logs [of ops w p] stopAllServers_pids [of ops w] by auto

lemma inv_stopAllServers:
  assumes "os_invariant ops P" and "P (os w)"
  shows "P (os (stopAllServers ops w))"
proof (cases "serverPIDs w = []")
  case True
  then show ?thesis using assms(2) by (simp add: stopAllServers_idle)
next
  case False
  let ?w0 = "logmsg Info ''Stopping all servers...'' w"
  let ?w1 = "foldl (\<lambda>v p. terminateProcessTree ops p False v) ?w0 (serverPIDs w)"
  let ?w2 = "sleep ops 2000 ?w1"
  let ?w3 = "foldl (\<lambda>v p. terminateProcessTree ops p True v) ?w2 (serverPIDs w)"
  from stopAllServers_unfold [OF False, of ops]
  have o: "os (stopAllServers ops w) = os ?w3" by auto
  have 0: "P (os ?w0)" using assms(2) by simp
  have 1: "P (os ?w1)"
    by (rule inv_foldl [of P, OF _ 0]) (rule inv_terminateProcessTree [OF assms(1)])
  have 2: "P (os ?w2)" by (rule inv_sleep [OF assms(1) 1])
  have 3: "P (os ?w3)"
    by (rule inv_foldl [of P, OF _ 2]) (rule inv_terminateProcessTree [OF assms(1)])
  show ?thesis unfolding o by (rule 3)
qed

lemma launch_spawned:
  assumes "spawn ops (os w) (pythonPath ops) (args @ [''--port'', show_int a]) = (Some p, s)"
    and "p \<noteq> 0"
  shows "fst (launch ops expose host args a w)
           = Inr \<lparr>res_url = ''http://'' @ (if \<not> expose \<and> host = ''0.0.0.0'' then ''127.0.0.1'' else host)
                            @ '':'' @ show_int a,
                  res_pid = p\<rparr>"
    and "serverPIDs (snd (launch ops expose host args a w)) = set_add p (serverPIDs w)"
    and "os (snd (launch ops expose host args a w)) = s"
    and "handles (snd (launch ops expose host args a w)) = handles w @ [p]"
    and "serverLogs (snd (launch ops expose host args a w)) = (serverLogs w)(p \<mapsto> length (handles w))"
    and "arrays (snd (launch ops expose host args a w)) = (arrays w)(length (handles w) := [])"
  using assms by (simp_all add: launch_def Let_def logmsg_def emit_def register_child_def)

lemma show_int_8080: "show_int 8080 = ''8080''"
  by (simp add: show_int_def show_nat.simps digit_char_def)

subsection \<open>Runs of the example system\<close>

lemma dead_send_signal_after_kill:
  assumes d: "death_is_final ops p"
    and n: "\<not> kill0 ops (snd (process_kill ops (os w) (- int q) sg)) p"
  shows "\<not> kill0 ops (os (send_signal ops q w sg)) p"
  using inv_send_signal_after_kill [OF death_is_final_invariant [OF d], of w q sg] n by simp

text \<open>In the example system a signal to the group of a process that is not
  deaf leaves the process dead, so one call of \<^verbatim>\<open>terminateProcessTree\<close> does.\<close>

lemma sim_terminateProcessTree_kills:
  assumes "p \<notin> set (deaf (os w))"
  shows "\<not> kill0 (sim_ops NotWin32 py pk busy) (os (terminateProcessTree (sim_ops NotWin32 py pk busy) p force w)) p"
proof -
  let ?ops = "sim_ops NotWin32 py pk busy"
  have k: "\<And>sg. \<not> kill0 ?ops (snd (process_kill ?ops (os w) (- int p) sg)) p"
    using assms by (simp add: sim_ops_def sim_kill_def Let_def)
  have 1: "\<And>sg. \<not> kill0 ?ops (os (send_signal ?ops p w sg)) p"
    by (rule dead_send_signal_after_kill [OF sim_death_is_final k])
  have "\<not> kill0 ?ops (os (terminateUnix ?ops p force w)) p"
    using 1 dead_send_signal [OF sim_death_is_final 1]
    by (simp add: terminateUnix_def)
  then have a: "\<not> fst (attempt_once ?ops p force w)"
    and b: "\<not> kill0 ?ops (os (snd (attempt_once ?ops p force w))) p"
    by (simp_all add: attempt_once_def sim_ops_def)
  show ?thesis
    using retry_loop_dead [of 1 ?ops p force w] a b
    by (simp add: terminateProcessTree_def maxRetries_def)
qed

lemma sim_stop_kills:
  assumes "serverPIDs w = [p]" and "p \<notin> set (deaf (os w))"
  shows "\<not> kill0 (sim_ops NotWin32 py pk busy) (os (stopAllServers (sim_ops NotWin32 py pk busy) w)) p"
proof -
  let ?ops = "sim_ops NotWin32 py pk busy"
  let ?w1 = "terminateProcessTree ?ops p False (logmsg Info ''Stopping all servers...'' w)"
  have "\<not> kill0 ?ops (os ?w1) p"
    by (rule sim_terminateProcessTree_kills) (simp add: assms)
  then have "\<not> kill0 ?ops (os (sleep ?ops 2000 ?w1)) p"
    by (rule dead_sleep [OF sim_death_is_final])
  then have "\<not> kill0 ?ops (os (terminateProcessTree ?ops p True (sleep ?ops 2000 ?w1))) p"
    by (rule dead_terminateProcessTree [OF sim_death_is_final])
  then show ?thesis
    using assms(1) by (simp add: stopAllServers_def Let_def logmsg_def emit_def)
qed

lemma sim_fresh_invariant: "os_invariant (sim_ops plat py pk busy) (\<lambda>s. fresh s = n)"
  by (auto simp: os_invariant_def sim_ops_def sim_kill_def sim_exec_def Let_def)

lemma sim_unchanged [simp]: "pending s = [] \<Longrightarrow> s\<lparr>pending := []\<rparr> = s"
  by (cases s) simp

lemma sim_sleep_deaf:
  assumes "pending (os w) = []"
  shows "os (sleep (sim_ops plat py pk busy) ms w) = os w"
    and "serverPIDs (sleep (sim_ops plat py pk busy) ms w) = serverPIDs w"
  using assms by (simp_all add: sleep_def sim_ops_def deliver_def emit_def)

lemma sim_send_signal_deaf:
  assumes "p \<in> set (live (os w))" and "p \<in> set (deaf (os w))" and "pending (os w) = []"
  shows "os (send_signal (sim_ops plat py pk busy) p w sg) = os w"
    and "serverPIDs (send_signal (sim_ops plat py pk busy) p w sg) = serverPIDs w"
  using assms
  by (simp_all add: send_signal_def sleep_def isProcessRunning_def deliver_def emit_def Let_def
        sim_ops_def sim_kill_def)

lemma sim_terminateUnix_deaf:
  assumes "p \<in> set (live (os w))" and "p \<in> set (deaf (os w))" and "pending (os w) = []"
  shows "os (terminateUnix (sim_ops plat py pk busy) p force w) = os w"
    and "serverPIDs (terminateUnix (sim_ops plat py pk busy) p force w) = serverPIDs w"
  using assms by (simp_all add: terminateUnix_def sim_send_signal_deaf)

lemma sim_attempt_once_deaf:
  assumes "p \<in> set (live (os w))" and "p \<in> set (deaf (os w))" and "pending (os w) = []"
  shows "fst (attempt_once (sim_ops NotWin32 py pk busy) p force w)"
    and "os (snd (attempt_once (sim_ops NotWin32 py pk busy) p force w)) = os w"
    and "serverPIDs (snd (attempt_once (sim_ops NotWin32 py pk busy) p force w)) = serverPIDs w"
proof -
  let ?ops = "sim_ops NotWin32 py pk busy"
  have pl: "platform ?ops \<noteq> Win32" by (simp add: sim_ops_def)
  have o: "os (terminateUnix ?ops p force w) = os w"
    and s: "serverPIDs (terminateUnix ?ops p force w) = serverPIDs w"
    using sim_terminateUnix_deaf [OF assms] by simp_all
  have k: "kill0 ?ops (os w) p" using assms(1) by (simp add: sim_ops_def)
  show "fst (attempt_once ?ops p force w)"
    using pl o k by (simp add: attempt_once_def)
  show "os (snd (attempt_once ?ops p force w)) = os w"
    using pl o by (simp add: attempt_once_def)
  show "serverPIDs (snd (attempt_once ?ops p force w)) = serverPIDs w"
    using pl s by (simp add: attempt_once_def isProcessRunning_def Let_def emit_def)
qed

lemma sim_retry_loop_deaf:
  "ops = sim_ops NotWin32 py pk busy \<Longrightarrow>
   p \<in> set (live (os w)) \<Longrightarrow> p \<in> set (deaf (os w)) \<Longrightarrow> pending (os w) = [] \<Longrightarrow>
   os (retry_loop ops p force attempt w) = os w
   \<and> serverPIDs (retry_loop ops p force attempt w) = serverPIDs w"
proof (induction ops p force attempt w rule: retry_loop.induct)
  case (1 ops p force attempt w)
  obtain running w1 where a: "attempt_once ops p force w = (running, w1)"
    by (cases "attempt_once ops p force w")
  have r: running and o1: "os w1 = os w" and s1: "serverPIDs w1 = serverPIDs w"
    using sim_attempt_once_deaf [OF "1.prems"(2,3,4), of py pk busy force] a "1.prems"(1)
    by simp_all
  show ?case
  proof (cases "attempt \<le> maxRetries")
    case False
    then show ?thesis
      by (simp add: retry_loop.simps [of ops p force attempt w] logmsg_def emit_def)
  next
    case True
    let ?w2 = "if attempt < maxRetries then sleep ops 1000 w1 else w1"
    have o2: "os ?w2 = os w" and s2: "serverPIDs ?w2 = serverPIDs w"
      using sim_sleep_deaf [of w1 NotWin32 py pk busy 1000] o1 s1 "1.prems"(1,4) by simp_all
    have "os (retry_loop ops p force (attempt + 1) ?w2) = os ?w2
          \<and> serverPIDs (retry_loop ops p force (attempt + 1) ?w2) = serverPIDs ?w2"
      using "1.IH" [OF True refl a [symmetric] _ "1.prems"(1)] r "1.prems"(2,3,4) o2
      by simp
    with True a r o2 s2 show ?thesis
      by (simp add: retry_loop.simps [of ops p force attempt w])
  qed
qed

lemma sim_stop_deaf:
  assumes "serverPIDs w = [p]"
    and "p \<in> set (live (os w))" and "p \<in> set (deaf (os w))" and "pending (os w) = []"
  shows "os (stopAllServers (sim_ops NotWin32 py pk busy) w) = os w"
    and "serverPIDs (stopAllServers (sim_ops NotWin32 py pk busy) w) = [p]"
proof -
  let ?ops = "sim_ops NotWin32 py pk busy"
  let ?w0 = "logmsg Info ''Stopping all servers...'' w"
  let ?w1 = "terminateProcessTree ?ops p False ?w0"
  let ?w2 = "sleep ?ops 2000 ?w1"
  let ?w3 = "terminateProcessTree ?ops p True ?w2"
  have 1: "os ?w1 = os w" "serverPIDs ?w1 = [p]"
    using sim_retry_loop_deaf [OF refl, of p ?w0 py pk busy False 1] assms
    by (simp_all add: terminateProcessTree_def logmsg_def emit_def)
  have 2: "os ?w2 = os w" "serverPIDs ?w2 = [p]"
    using sim_sleep_deaf [of ?w1 NotWin32 py pk busy 2000] 1 assms(4) by simp_all
  have 3: "os ?w3 = os w" "serverPIDs ?w3 = [p]"
    using sim_retry_loop_deaf [OF refl, of p ?w2 py pk busy True 1] 2 assms
    by (simp_all add: terminateProcessTree_def)
  have k: "kill0 ?ops (os ?w3) p" using 3(1) assms(2) by (simp add: sim_ops_def)
  have v: "os (verify_pid ?ops ?w3 p) = os w" "serverPIDs (verify_pid ?ops ?w3 p) = [p]"
    using k 3 by (simp_all add: verify_pid_pids)
  have u: "stopAllServers ?ops w
             = logmsg Info (stopped_msg 1 (length (serverPIDs (verify_pid ?ops ?w3 p))))
                 (verify_pid ?ops ?w3 p)"
    using assms(1) by (simp add: stopAllServers_def Let_def logmsg_def emit_def)
  show "os (stopAllServers ?ops w) = os w" using v(1) by (simp add: u)
  show "serverPIDs (stopAllServers ?ops w) = [p]" using v(2) by (simp add: u logmsg_def emit_def)
qed

text \<open>A start in the example system with Python and the package installed
  and every port free, in terms of the state its stop leaves.\<close>

lemma sim_start:
  assumes "fresh (os (stopAllServers (sim_ops NotWin32 True True []) w)) = n" and "n \<noteq> 0"
    and "desired_port prt = 8080"
  shows "fst (startServer (sim_ops NotWin32 True True []) False prt w)
           = Inr \<lparr>res_url = ''http://127.0.0.1:8080'', res_pid = n\<rparr>"
    and "serverPIDs (snd (startServer (sim_ops NotWin32 True True []) False prt w))
           = set_add n (serverPIDs (stopAllServers (sim_ops NotWin32 True True []) w))"
    and "os (snd (startServer (sim_ops NotWin32 True True []) False prt w))
           = (os (stopAllServers (sim_ops NotWin32 True True []) w))
               \<lparr>live := live (os (stopAllServers (sim_ops NotWin32 True True []) w)) @ [n],
                fresh := Suc n\<rparr>"
    and "handles (snd (startServer (sim_ops NotWin32 True True []) False prt w))
           = handles (stopAllServers (sim_ops NotWin32 True True []) w) @ [n]"
    and "serverLogs (snd (startServer (sim_ops NotWin32 True True []) False prt w))
           = (serverLogs (stopAllServers (sim_ops NotWin32 True True []) w))
               (n \<mapsto> length (handles (stopAllServers (sim_ops NotWin32 True True []) w)))"
    and "arrays (snd (startServer (sim_ops NotWin32 True True []) False prt w))
           = (arrays (stopAllServers (sim_ops NotWin32 True True []) w))
               (length (handles (stopAllServers (sim_ops NotWin32 True True []) w)) := [])"
proof -
  let ?ops = "sim_ops NotWin32 True True []"
  let ?w1 = "stopAllServers ?ops w"
  let ?args = "[''-m'', ''uv'', ''run'', ''open-webui'', ''serve'', ''--host'', ''127.0.0.1'']"
  let ?w4 = "logmsg Info (''Checking port availability starting from '' @ show_int 8080 @ ''...'')
               ((logmsg Info (''Using Python at: '' @ pythonPath ?ops) ?w1)\<lparr>os := os ?w1\<rparr>)"
  let ?w5 = "deliver [] (emit (AConnect 8080 ''127.0.0.1'' False) (?w4\<lparr>os := os ?w1\<rparr>))"
  have v: "valid_port 8080" by (simp add: valid_port_def)
  have c: "connect ?ops (os ?w4) 8080 ''127.0.0.1'' probe_timeout
             = (Failed ''ECONNREFUSED'', [], os ?w1)"
    by (simp add: sim_ops_def)
  have "portInUse ?ops 8080 ''127.0.0.1'' ?w4 = (Inr False, ?w5)"
    using portInUse_valid [OF v c] by simp
  then have sc: "scanPorts ?ops ''127.0.0.1'' 8080 8080 ?w4 = (Inr 8080, ?w5)"
    by (rule scanPorts_free_here)
  have py: "pythonInstalled ?ops (os ?w1)" "packageInstalled ?ops (os ?w1)"
    "prepareEnv ?ops (os ?w1) = (None, os ?w1)"
    by (simp_all add: sim_ops_def)
  have st: "startServer ?ops False prt w = launch ?ops False ''127.0.0.1'' ?args 8080 ?w5"
    using py sc by (simp add: startServer_def Let_def bind_host_def assms(3))
  have o5: "os ?w5 = os ?w1" and p5: "serverPIDs ?w5 = serverPIDs ?w1"
    and h5: "handles ?w5 = handles ?w1" and l5: "serverLogs ?w5 = serverLogs ?w1"
    and a5: "arrays ?w5 = arrays ?w1"
    by (simp_all add: deliver_def emit_def logmsg_def)
  have sp: "spawn ?ops (os ?w5) (pythonPath ?ops) (?args @ [''--port'', show_int 8080])
              = (Some n, (os ?w1)\<lparr>live := live (os ?w1) @ [n], fresh := Suc n\<rparr>)"
    using assms(1) unfolding o5 by (simp add: sim_ops_def sim_spawn_def)
  note l = launch_spawned [OF sp assms(2), of False "''127.0.0.1''"]
  show "fst (startServer ?ops False prt w)
          = Inr \<lparr>res_url = ''http://127.0.0.1:8080'', res_pid = n\<rparr>"
    using l(1) by (simp add: st show_int_8080)
  show "serverPIDs (snd (startServer ?ops False prt w)) = set_add n (serverPIDs ?w1)"
    using l(2) p5 by (simp add: st)
  show "os (snd (startServer ?ops False prt w))
          = (os ?w1)\<lparr>live := live (os ?w1) @ [n], fresh := Suc n\<rparr>"
    using l(3) by (simp add: st)
  show "handles (snd (startServer ?ops False prt w)) = handles ?w1 @ [n]"
    using l(4) h5 by (simp add: st)
  show "serverLogs (snd (startServer ?ops False prt w))
          = (serverLogs ?w1)(n \<mapsto> length (handles ?w1))"
    using l(5) h5 l5 by (simp add: st)
  show "arrays (snd (startServer ?ops False prt w)) = (arrays ?w1)(length (handles ?w1) := [])"
    using l(6) h5 a5 by (simp add: st)
qed

text \<open>The first start on a module right after loading.\<close>

lemma fresh_start:
  assumes "fresh s = 100" and "desired_port prt = 8080"
  shows "fst (startServer (sim_ops NotWin32 True True []) False prt (fresh_world s))
           = Inr \<lparr>res_url = ''http://127.0.0.1:8080'', res_pid = 100\<rparr>"
    and "serverPIDs (snd (startServer (sim_ops NotWin32 True True []) False prt (fresh_world s)))
           = [100]"
    and "os (snd (startServer (sim_ops NotWin32 True True []) False prt (fresh_world s)))
           = s\<lparr>live := live s @ [100], fresh := 101\<rparr>"
    and "handles (snd (startServer (sim_ops NotWin32 True True []) False prt (fresh_world s)))
           = [100]"
    and "serverLogs (snd (startServer (sim_ops NotWin32 True True []) False prt (fresh_world s))) 100
           = Some 0"
    and "arrays (snd (startServer (sim_ops NotWin32 True True []) False prt (fresh_world s))) 0
           = []"
proof -
  let ?ops = "sim_ops NotWin32 True True []"
  have i: "stopAllServers ?ops (fresh_world s)
             = logmsg Info ''No servers to stop.''
                 (logmsg Info ''Stopping all servers...'' (fresh_world s))"
    by (rule stopAllServers_idle) (simp add: fresh_world_def)
  have f0: "fresh (os (stopAllServers ?ops (fresh_world s))) = 100"
    and p0: "serverPIDs (stopAllServers ?ops (fresh_world s)) = []"
    and o0: "os (stopAllServers ?ops (fresh_world s)) = s"
    and h0: "handles (stopAllServers ?ops (fresh_world s)) = []"
    and l0: "serverLogs (stopAllServers ?ops (fresh_world s)) = Map.empty"
    and a0: "arrays (stopAllServers ?ops (fresh_world s)) = (\<lambda>r. [])"
    unfolding i using assms(1) by (simp_all add: logmsg_def emit_def fresh_world_def)
  have n: "(100::nat) \<noteq> 0" by simp
  note st = sim_start [OF f0 n assms(2)]
  show "fst (startServer ?ops False prt (fresh_world s))
          = Inr \<lparr>res_url = ''http://127.0.0.1:8080'', res_pid = 100\<rparr>"
    by (rule st(1))
  show "serverPIDs (snd (startServer ?ops False prt (fresh_world s))) = [100]"
    using st(2) p0 by (simp add: set_add_def)
  show "os (snd (startServer ?ops False prt (fresh_world s))) = s\<lparr>live := live s @ [100], fresh := 101\<rparr>"
    using st(3) o0 by simp
  show "handles (snd (startServer ?ops False prt (fresh_world s))) = [100]"
    using st(4) h0 by simp
  show "serverLogs (snd (startServer ?ops False prt (fresh_world s))) 100 = Some 0"
    using st(5) h0 by simp
  show "arrays (snd (startServer ?ops False prt (fresh_world s))) 0 = []"
    using st(6) h0 by simp
qed

text \<open>Two starts where the first process is one that no signal terminates.\<close>

lemma deaf_two_starts:
  assumes "desired_port prt = 8080"
  shows "fst (startServer (sim_ops NotWin32 True True []) False prt (fresh_world (quiet\<lparr>deaf := [100]\<rparr>)))
     = Inr \<lparr>res_url = ''http://127.0.0.1:8080'', res_pid = 100\<rparr>
   \<and> fst (startServer (sim_ops NotWin32 True True []) False prt
           (snd (startServer (sim_ops NotWin32 True True []) False prt
                   (fresh_world (quiet\<lparr>deaf := [100]\<rparr>)))))
     = Inr \<lparr>res_url = ''http://127.0.0.1:8080'', res_pid = 101\<rparr>
   \<and> serverPIDs
       (snd (startServer (sim_ops NotWin32 True True []) False prt
          (snd (startServer (sim_ops NotWin32 True True []) False prt
                  (fresh_world (quiet\<lparr>deaf := [100]\<rparr>))))))
     = [100, 101]
   \<and> kill0 (sim_ops NotWin32 True True [])
       (os (stopAllServers (sim_ops NotWin32 True True [])
              (snd (startServer (sim_ops NotWin32 True True []) False prt
                      (fresh_world (quiet\<lparr>deaf := [100]\<rparr>)))))) 100"
proof -
  let ?ops = "sim_ops NotWin32 True True []"
  let ?w0 = "fresh_world (quiet\<lparr>deaf := [100]\<rparr>)"
  let ?w1 = "snd (startServer ?ops False prt ?w0)"
  let ?w2 = "snd (startServer ?ops False prt ?w1)"
  have f: "fresh (quiet\<lparr>deaf := [100]\<rparr>) = 100" by (simp add: quiet_def)
  note s = fresh_start [OF f assms]
  have r1: "fst (startServer ?ops False prt ?w0)
              = Inr \<lparr>res_url = ''http://127.0.0.1:8080'', res_pid = 100\<rparr>"
    by (rule s(1))
  have p1: "serverPIDs ?w1 = [100]" by (rule s(2))
  have o1: "os ?w1 = \<lparr>live = [100], deaf = [100], fresh = 101, pending = []\<rparr>"
    using s(3) by (simp add: quiet_def)
  have s1: "os (stopAllServers ?ops ?w1) = os ?w1"
    and s2: "serverPIDs (stopAllServers ?ops ?w1) = [100]"
    by (rule sim_stop_deaf [OF p1]; simp add: o1)+
  have f1: "fresh (os (stopAllServers ?ops ?w1)) = 101" by (simp add: s1 o1)
  have n: "(101::nat) \<noteq> 0" by simp
  have r2: "fst (startServer ?ops False prt ?w1)
              = Inr \<lparr>res_url = ''http://127.0.0.1:8080'', res_pid = 101\<rparr>"
    by (rule sim_start(1) [OF f1 n assms])
  have p2: "serverPIDs ?w2 = [100, 101]"
    using sim_start(2) [OF f1 n assms] s2 by (simp add: set_add_def)
  have k: "kill0 ?ops (os (stopAllServers ?ops ?w1)) 100"
    by (simp add: s1 o1) (simp add: sim_ops_def)
  from r1 r2 p2 k show ?thesis by (intro conjI)
qed

text \<open>Two starts where the first process dies on its first signal.\<close>

lemma healthy_two_starts:
  assumes "desired_port prt = 8080"
  shows "fst (startServer (sim_ops NotWin32 True True []) False prt (fresh_world quiet))
     = Inr \<lparr>res_url = ''http://127.0.0.1:8080'', res_pid = 100\<rparr>
   \<and> fst (startServer (sim_ops NotWin32 True True []) False prt
           (snd (startServer (sim_ops NotWin32 True True []) False prt (fresh_world quiet))))
     = Inr \<lparr>res_url = ''http://127.0.0.1:8080'', res_pid = 101\<rparr>
   \<and> serverPIDs
       (snd (startServer (sim_ops NotWin32 True True []) False prt
          (snd (startServer (sim_ops NotWin32 True True []) False prt (fresh_world quiet)))))
     = [101]
   \<and> serverPIDs (snd (startServer (sim_ops NotWin32 True True []) False prt (fresh_world quiet)))
     = [100]
   \<and> \<not> kill0 (sim_ops NotWin32 True True [])
       (os (stopAllServers (sim_ops NotWin32 True True [])
              (snd (startServer (sim_ops NotWin32 True True []) False prt (fresh_world quiet))))) 100"
proof -
  let ?ops = "sim_ops NotWin32 True True []"
  let ?w0 = "fresh_world quiet"
  let ?w1 = "snd (startServer ?ops False prt ?w0)"
  let ?w2 = "snd (startServer ?ops False prt ?w1)"
  have f: "fresh quiet = 100" by (simp add: quiet_def)
  note s = fresh_start [OF f assms]
  have r1: "fst (startServer ?ops False prt ?w0)
              = Inr \<lparr>res_url = ''http://127.0.0.1:8080'', res_pid = 100\<rparr>"
    by (rule s(1))
  have p1: "serverPIDs ?w1 = [100]" by (rule s(2))
  have o1: "os ?w1 = \<lparr>live = [100], deaf = [], fresh = 101, pending = []\<rparr>"
    using s(3) by (simp add: quiet_def)
  have k: "\<not> kill0 ?ops (os (stopAllServers ?ops ?w1)) 100"
    by (rule sim_stop_kills [OF p1]) (simp add: o1)
  have s2: "serverPIDs (stopAllServers ?ops ?w1) = []"
  proof (rule ccontr)
    assume "serverPIDs (stopAllServers ?ops ?w1) \<noteq> []"
    then obtain q where "q \<in> set (serverPIDs (stopAllServers ?ops ?w1))"
      by (cases "serverPIDs (stopAllServers ?ops ?w1)") auto
    with stopAllServers_pids [of ?ops ?w1] have "q \<in> set (serverPIDs ?w1)"
      and "kill0 ?ops (os (stopAllServers ?ops ?w1)) q" by auto
    with p1 k show False by simp
  qed
  have "fresh (os ?w1) = 101" by (simp add: o1)
  then have f1: "fresh (os (stopAllServers ?ops ?w1)) = 101"
    by (rule inv_stopAllServers [OF sim_fresh_invariant])
  have n: "(101::nat) \<noteq> 0" by simp
  have r2: "fst (startServer ?ops False prt ?w1)
              = Inr \<lparr>res_url = ''http://127.0.0.1:8080'', res_pid = 101\<rparr>"
    by (rule sim_start(1) [OF f1 n assms])
  have p2: "serverPIDs ?w2 = [101]"
    using sim_start(2) [OF f1 n assms] s2 by (simp add: set_add_def)
  from r1 r2 p2 p1 k show ?thesis by (intro conjI)
qed

subsection \<open>Logs across a stop\<close>




subsection \<open>Start without runtime or package\<close>

lemma controller_not_spawn: "controller_action a \<Longrightarrow> not_spawn a"
  by (cases a) simp_all

lemma listener_not_spawn: "listener_action a \<Longrightarrow> not_spawn a"
  by (cases a) simp_all

lemma step_pids_empty: "step A w w' \<Longrightarrow> serverPIDs w = [] \<Longrightarrow> serverPIDs w' = []"
  by (simp add: step_def)

lemma startServer_missing:
  assumes "serverPIDs w = []"
    and "\<not> pythonInstalled ops (os w) \<or> \<not> packageInstalled ops (os w)"
  shows "startServer ops expose prt w
           = (Inl (Thrown (if \<not> pythonInstalled ops (os w) then ''Python is not installed''
                           else ''open-webui package is not installed'')),
              logmsg Info ''No servers to stop.'' (logmsg Info ''Stopping all servers...'' w))"
  using assms
  by (auto simp: startServer_def stopAllServers_idle Let_def python_missing_def package_missing_def)

lemma step_stopServerHandler_idle:
  assumes "serverPIDs w = []"
  shows "step not_spawn w (snd (snd (stopServerHandler ops (h, w))))"
proof -
  have 1: "step not_spawn w (stopAllServers ops w)"
    by (rule step_mono [OF step_stop_idle [OF assms] controller_not_spawn])
  have 2: "\<And>v a. \<not> is_spawn a \<Longrightarrow> step not_spawn v (emit a v)"
    by (rule step_emit) simp
  show ?thesis
    by (auto simp: stopServerHandler_def Let_def
          intro!: step_trans [OF 1] step_trans [OF 2 2] 2)
qed

lemma step_start_failed: "step not_spawn w (snd (snd (start_failed msg h w)))"
proof -
  have 2: "\<And>v a. \<not> is_spawn a \<Longrightarrow> step not_spawn v (emit a v)"
    by (rule step_emit) simp
  show ?thesis
    unfolding start_failed_def Let_def logmsg_def snd_conv
    by (rule step_trans [OF step_trans [OF step_trans [OF 2 2] 2] 2]) simp_all
qed

lemma start_failed_result:
  "fst (start_failed msg h w) = False"
  "SERVER_STATUS (fst (snd (start_failed msg h w))) = Some ''failed''"
  "ASend ''main:log'' (''Failed to start server: '' @ msg)
     \<in> set (trace (snd (snd (start_failed msg h w))))"
  by (simp_all add: start_failed_def Let_def emit_def logmsg_def)


lemma startServerHandler_missing:
  assumes e: "serverPIDs w = []"
    and m: "\<forall>s. \<not> pythonInstalled ops s \<or> \<not> packageInstalled ops s"
  shows "\<exists>msg h2 w4. startServerHandler ops (h, w) = start_failed msg h2 w4 \<and> step not_spawn w w4"
proof -
  obtain b h1 w1 where sh: "stopServerHandler ops (h, w) = (b, h1, w1)"
    by (cases "stopServerHandler ops (h, w)")
  have s1: "step not_spawn w w1" using step_stopServerHandler_idle [OF e, of ops h] sh by simp
  let ?h2 = "h1\<lparr>SERVER_STATUS := Some ''starting''\<rparr>"
  let ?w2 = "emit (ASend ''status:server'' ''starting'') w1"
  obtain cfg evs s where rc: "readConfig ops (os ?w2) = (cfg, evs, s)"
    by (cases "readConfig ops (os ?w2)")
  let ?w3 = "deliver evs (?w2\<lparr>os := s\<rparr>)"
  have s2: "step not_spawn w1 ?w2" by (rule step_emit) simp
  have s3: "step not_spawn ?w2 ?w3"
    by (rule step_trans [OF step_os step_mono [OF step_deliver listener_not_spawn]])
  have s13: "step not_spawn w ?w3" by (rule step_trans [OF step_trans [OF s1 s2] s3])
  have e3: "serverPIDs ?w3 = []" by (rule step_pids_empty [OF s13 e])
  show ?thesis
  proof (cases cfg)
    case (Inl msg)
    then have "startServerHandler ops (h, w) = start_failed msg ?h2 ?w3"
      using sh rc by (simp add: startServerHandler_def Let_def)
    with s13 show ?thesis by blast
  next
    case (Inr c)
    let ?w4 = "logmsg Info ''No servers to stop.'' (logmsg Info ''Stopping all servers...'' ?w3)"
    let ?msg = "if \<not> pythonInstalled ops (os ?w3) then ''Python is not installed''
                else ''open-webui package is not installed''"
    have st: "startServer ops (config_expose c) (config_port c) ?w3 = (Inl (Thrown ?msg), ?w4)"
      by (rule startServer_missing [OF e3]) (rule m [rule_format])
    have s4: "step not_spawn ?w3 ?w4"
      by (rule step_trans [OF step_logmsg step_logmsg]) simp_all
    have "startServerHandler ops (h, w) = start_failed (''Error: '' @ ?msg) ?h2 ?w4"
      using sh rc Inr st by (simp add: startServerHandler_def Let_def render_error_def)
    with step_trans [OF s13 s4] show ?thesis by blast
  qed
qed

text \<open>
  Claim C8. Let the set of tracked pids be empty, and let Python or the
  \<^verbatim>\<open>open-webui\<close> package be missing. Then \<^verbatim>\<open>startServer\<close> throws "Python is not
  installed" (or "open-webui package is not installed" when only the package
  is missing) to its caller; it has only written two log messages: the set of
  tracked pids is still empty, \<^verbatim>\<open>serverLogs\<close> has no new entry and no
  process was spawned. \<^verbatim>\<open>startServerHandler\<close>, its caller, returns \<^verbatim>\<open>false\<close>
  with \<^verbatim>\<open>SERVER_STATUS\<close> set to \<^verbatim>\<open>failed\<close> and sends the error to the window, again
  with no pid tracked, no log entry added and no process spawned.
\<close>

theorem start_aborts_when_runtime_or_package_missing:
  assumes "serverPIDs w = []"
    and "\<forall>s. \<not> pythonInstalled ops s \<or> \<not> packageInstalled ops s"
  shows "startServer ops expose prt w
           = (Inl (Thrown (if \<not> pythonInstalled ops (os w) then ''Python is not installed''
                           else ''open-webui package is not installed'')),
              logmsg Info ''No servers to stop.'' (logmsg Info ''Stopping all servers...'' w))
         \<and> serverPIDs (snd (startServer ops expose prt w)) = []
         \<and> serverLogs (snd (startServer ops expose prt w)) = serverLogs w
         \<and> handles (snd (startServer ops expose prt w)) = handles w
         \<and> fst (startServerHandler ops (h, w)) = False
         \<and> SERVER_STATUS (fst (snd (startServerHandler ops (h, w)))) = Some ''failed''
         \<and> serverPIDs (snd (snd (startServerHandler ops (h, w)))) = []
         \<and> serverLogs (snd (snd (startServerHandler ops (h, w)))) = serverLogs w
         \<and> handles (snd (snd (startServerHandler ops (h, w)))) = handles w
         \<and> (\<exists>t. trace (snd (snd (startServerHandler ops (h, w)))) = trace w @ t
                \<and> list_all (\<lambda>a. \<not> is_spawn a) t
                \<and> (\<exists>msg. ASend ''main:log'' (''Failed to start server: '' @ msg) \<in> set t))"
proof -
  have st: "startServer ops expose prt w
           = (Inl (Thrown (if \<not> pythonInstalled ops (os w) then ''Python is not installed''
                           else ''open-webui package is not installed'')),
              logmsg Info ''No servers to stop.'' (logmsg Info ''Stopping all servers...'' w))"
    by (rule startServer_missing [OF assms(1)]) (rule assms(2) [rule_format])
  obtain msg h2 w4 where hd: "startServerHandler ops (h, w) = start_failed msg h2 w4"
    and s4: "step not_spawn w w4"
    using startServerHandler_missing [OF assms, of h] by blast
  let ?w5 = "snd (snd (start_failed msg h2 w4))"
  have s5: "step not_spawn w ?w5" by (rule step_trans [OF s4 step_start_failed])
  then obtain t where t: "trace ?w5 = trace w @ t" "list_all not_spawn t"
    unfolding step_def by blast
  obtain u where u: "trace w4 = trace w @ u" using s4 unfolding step_def by blast
  have tl: "trace ?w5 = trace w4 @ [ALog Error (''Failed to start server: '' @ msg),
      ASend ''status:server'' ''failed'',
      ASend ''main:log'' (''Failed to start server: '' @ msg),
      ATray ''Open WebUI: Failed to Start'']"
    by (simp add: start_failed_def Let_def emit_def logmsg_def)
  have "ASend ''main:log'' (''Failed to start server: '' @ msg) \<in> set t"
    using t(1) u tl by auto
  with t have tr: "\<exists>t. trace ?w5 = trace w @ t \<and> list_all (\<lambda>a. \<not> is_spawn a) t
                \<and> (\<exists>msg. ASend ''main:log'' (''Failed to start server: '' @ msg) \<in> set t)"
    by (auto simp: list_all_iff)
  have fr: "serverPIDs ?w5 = []" "serverLogs ?w5 = serverLogs w" "handles ?w5 = handles w"
    using s5 assms(1) by (simp_all add: step_def)
  show ?thesis
    using st tr fr start_failed_result(1,2) [of msg h2 w4] assms(1)
    by (simp add: hd logmsg_def emit_def)
qed

theorem start_aborts_when_runtime_or_package_missing_witness:
  "serverPIDs (fresh_world quiet) = []
   \<and> \<not> pythonInstalled (sim_ops NotWin32 False True []) (os (fresh_world quiet))
   \<and> fst (startServer (sim_ops NotWin32 False True []) False (PNum 8080) (fresh_world quiet))
       = Inl (Thrown ''Python is not installed'')
   \<and> serverPIDs (snd (startServer (sim_ops NotWin32 False True []) False (PNum 8080) (fresh_world quiet)))
       = []
   \<and> SERVER_STATUS (fst (snd (startServerHandler (sim_ops NotWin32 False True [])
                                 (fresh_handler, fresh_world quiet)))) = Some ''failed''"
proof -
  have a: "serverPIDs (fresh_world quiet) = []" by (simp add: fresh_world_def)
  have b: "\<forall>s. \<not> pythonInstalled (sim_ops NotWin32 False True []) s
              \<or> \<not> packageInstalled (sim_ops NotWin32 False True []) s"
    by (simp add: sim_ops_def)
  have c: "\<not> pythonInstalled (sim_ops NotWin32 False True []) (os (fresh_world quiet))"
    by (simp add: sim_ops_def)
  note T = start_aborts_when_runtime_or_package_missing
             [OF a b, of False "PNum 8080" fresh_handler]
  have 1: "fst (startServer (sim_ops NotWin32 False True []) False (PNum 8080) (fresh_world quiet))
             = Inl (Thrown ''Python is not installed'')"
    using T [THEN conjunct1] c by simp
  have 2: "serverPIDs (snd (startServer (sim_ops NotWin32 False True []) False (PNum 8080)
                              (fresh_world quiet))) = []"
    using T [THEN conjunct2, THEN conjunct1] .
  have 3: "SERVER_STATUS (fst (snd (startServerHandler (sim_ops NotWin32 False True [])
                                 (fresh_handler, fresh_world quiet)))) = Some ''failed''"
    using T by blast
  from a c 1 2 3 show ?thesis by blast
qed

subsection \<open>Start on a free port\<close>

lemma desired_port_nonzero: "n \<noteq> 0 \<Longrightarrow> desired_port (PNum n) = n"
  by (simp add: desired_port_def)




subsection \<open>What a stop guarantees\<close>

lemma stop_step_refl: "stop_step w w"
  by (simp add: stop_step_def)

lemma stop_step_trans:
  assumes "stop_step w w'" and "stop_step w' w''"
  shows "stop_step w w''"
proof -
  from assms(1) obtain t where t: "trace w' = trace w @ t" "list_all controller_action t"
    "\<forall>p\<in>set (serverPIDs w). p \<notin> set (serverPIDs w') \<longrightarrow>
        ACloseEvent p \<in> set t \<or> AProbe p False \<in> set t"
    and f: "handles w' = handles w" "set (serverPIDs w') \<subseteq> set (serverPIDs w)"
    and a: "\<forall>r. \<exists>ls. arrays w' r = arrays w r @ ls"
    unfolding stop_step_def by blast
  from assms(2) obtain u where u: "trace w'' = trace w' @ u" "list_all controller_action u"
    "\<forall>p\<in>set (serverPIDs w'). p \<notin> set (serverPIDs w'') \<longrightarrow>
        ACloseEvent p \<in> set u \<or> AProbe p False \<in> set u"
    and g: "handles w'' = handles w'" "set (serverPIDs w'') \<subseteq> set (serverPIDs w')"
    and b: "\<forall>r. \<exists>ls. arrays w'' r = arrays w' r @ ls"
    unfolding stop_step_def by blast
  have 1: "trace w'' = trace w @ (t @ u)" using t(1) u(1) by simp
  have 2: "list_all controller_action (t @ u)" using t(2) u(2) by simp
  have 3: "\<forall>p\<in>set (serverPIDs w). p \<notin> set (serverPIDs w'') \<longrightarrow>
                   ACloseEvent p \<in> set (t @ u) \<or> AProbe p False \<in> set (t @ u)"
    using t(3) u(3) by auto
  have 4: "\<exists>t. trace w'' = trace w @ t \<and> list_all controller_action t \<and>
             (\<forall>p\<in>set (serverPIDs w). p \<notin> set (serverPIDs w'') \<longrightarrow>
                ACloseEvent p \<in> set t \<or> AProbe p False \<in> set t)"
    using 1 2 3 by blast
  have 5: "handles w'' = handles w" "set (serverPIDs w'') \<subseteq> set (serverPIDs w)"
    using f g by auto
  show ?thesis
    unfolding stop_step_def using 4 5 arrays_grow_trans [OF a b] by blast
qed

lemma step_stop_step: "step controller_action w w' \<Longrightarrow> stop_step w w'"
  unfolding step_def stop_step_def by blast

lemma stop_step_verify_pid: "stop_step w (verify_pid ops w p)"
proof (cases "kill0 ops (os w) p")
  case True
  then have "verify_pid ops w p = logmsg Warn (still_running_msg p) (emit (AProbe p True) w)"
    by (simp add: verify_pid_def isProcessRunning_def Let_def)
  moreover have "step controller_action w (logmsg Warn (still_running_msg p) (emit (AProbe p True) w))"
    by (rule step_trans [OF step_emit step_logmsg]) simp_all
  ultimately show ?thesis by (simp add: step_stop_step)
next
  case False
  then show ?thesis
    by (simp add: verify_pid_def isProcessRunning_def Let_def emit_def stop_step_def)
qed

lemma stop_step_foldl:
  assumes "\<And>v x. stop_step v (f v x)"
  shows "stop_step w (foldl f w xs)"
proof (induction xs arbitrary: w)
  case Nil
  show ?case by (simp add: stop_step_refl)
next
  case (Cons x xs)
  show ?case using stop_step_trans [OF assms Cons.IH] by simp
qed

lemma stop_step_stopAllServers: "stop_step w (stopAllServers ops w)"
proof (cases "serverPIDs w = []")
  case True
  then show ?thesis by (simp add: step_stop_step step_stop_idle)
next
  case False
  let ?ps = "serverPIDs w"
  let ?w0 = "logmsg Info ''Stopping all servers...'' w"
  let ?w1 = "foldl (\<lambda>v p. terminateProcessTree ops p False v) ?w0 ?ps"
  let ?w2 = "sleep ops 2000 ?w1"
  let ?w3 = "foldl (\<lambda>v p. terminateProcessTree ops p True v) ?w2 ?ps"
  let ?w4 = "foldl (verify_pid ops) ?w3 ?ps"
  have 0: "stop_step w ?w0" by (rule step_stop_step, rule step_logmsg) simp
  have 1: "stop_step ?w0 ?w1"
    by (rule stop_step_foldl) (rule step_stop_step, rule step_terminateProcessTree)
  have 2: "stop_step ?w1 ?w2" by (rule step_stop_step, rule step_sleep)
  have 3: "stop_step ?w2 ?w3"
    by (rule stop_step_foldl) (rule step_stop_step, rule step_terminateProcessTree)
  have 4: "stop_step ?w3 ?w4" by (rule stop_step_foldl) (rule stop_step_verify_pid)
  have 5: "stop_step ?w4 (logmsg Info (stopped_msg (length ?ps) (length (serverPIDs ?w4))) ?w4)"
    by (rule step_stop_step, rule step_logmsg) simp
  have "stop_step w (logmsg Info (stopped_msg (length ?ps) (length (serverPIDs ?w4))) ?w4)"
    by (rule stop_step_trans [OF stop_step_trans [OF stop_step_trans [OF stop_step_trans
          [OF stop_step_trans [OF 0 1] 2] 3] 4] 5])
  moreover have "stopAllServers ops w
                   = logmsg Info (stopped_msg (length ?ps) (length (serverPIDs ?w4))) ?w4"
    using False by (simp add: stopAllServers_def Let_def logmsg_def emit_def)
  ultimately show ?thesis by simp
qed

text \<open>Who is still tracked after the last loop of \<^verbatim>\<open>stopAllServers\<close> was
  found alive by its liveness check and was reported as possibly running;
  who was found alive is still tracked unless its \<^verbatim>\<open>close\<close> event was handled
  during the stop.\<close>

lemma verify_loop_warned:
  "\<exists>t. trace (foldl (verify_pid ops) w ps) = trace w @ t
       \<and> (\<forall>q\<in>set (serverPIDs (foldl (verify_pid ops) w ps)).
             q \<in> set ps \<longrightarrow> ALog Warn (still_running_msg q) \<in> set t)"
proof (induction ps arbitrary: w)
  case Nil
  show ?case by simp
next
  case (Cons p ps)
  let ?w1 = "verify_pid ops w p"
  let ?w' = "foldl (verify_pid ops) ?w1 ps"
  obtain u where u: "trace ?w' = trace ?w1 @ u"
    "\<forall>q\<in>set (serverPIDs ?w'). q \<in> set ps \<longrightarrow> ALog Warn (still_running_msg q) \<in> set u"
    using Cons.IH [of ?w1] by blast
  have sub: "set (serverPIDs ?w') \<subseteq> set (serverPIDs ?w1)"
    using stop_step_foldl [of "verify_pid ops" ?w1 ps, OF stop_step_verify_pid]
    unfolding stop_step_def by blast
  show ?case
  proof (cases "kill0 ops (os w) p")
    case True
    then have t1: "trace ?w1 = trace w @ [AProbe p True, ALog Warn (still_running_msg p)]"
      by (simp add: verify_pid_def isProcessRunning_def Let_def emit_def logmsg_def)
    have "trace ?w' = trace w @ ([AProbe p True, ALog Warn (still_running_msg p)] @ u)"
      using u(1) t1 by simp
    moreover have "\<forall>q\<in>set (serverPIDs ?w'). q \<in> set (p # ps) \<longrightarrow>
        ALog Warn (still_running_msg q) \<in> set ([AProbe p True, ALog Warn (still_running_msg p)] @ u)"
      using u(2) by auto
    ultimately show ?thesis by (metis foldl_Cons)
  next
    case False
    then have t1: "trace ?w1 = trace w @ [AProbe p False]" and gone: "p \<notin> set (serverPIDs ?w1)"
      by (simp_all add: verify_pid_def isProcessRunning_def Let_def emit_def)
    have "trace ?w' = trace w @ ([AProbe p False] @ u)" using u(1) t1 by simp
    moreover have "\<forall>q\<in>set (serverPIDs ?w'). q \<in> set (p # ps) \<longrightarrow>
        ALog Warn (still_running_msg q) \<in> set ([AProbe p False] @ u)"
      using u(2) gone sub by auto
    ultimately show ?thesis by (metis foldl_Cons)
  qed
qed

lemma stopAllServers_survivors:
  "\<exists>t. trace (stopAllServers ops w) = trace w @ t
       \<and> (\<forall>q\<in>set (serverPIDs (stopAllServers ops w)).
             q \<in> set (serverPIDs w) \<and> kill0 ops (os (stopAllServers ops w)) q
             \<and> ALog Warn (still_running_msg q) \<in> set t)
       \<and> (\<forall>q\<in>set (serverPIDs w). kill0 ops (os (stopAllServers ops w)) q \<longrightarrow>
             q \<in> set (serverPIDs (stopAllServers ops w)) \<or> ACloseEvent q \<in> set t)"
proof (cases "serverPIDs w = []")
  case True
  have "serverPIDs (stopAllServers ops w) = []"
    using True by (simp add: stopAllServers_idle logmsg_def emit_def)
  moreover obtain t where "trace (stopAllServers ops w) = trace w @ t"
    using stop_step_stopAllServers [of w ops] unfolding stop_step_def by blast
  ultimately show ?thesis using True by auto
next
  case False
  let ?ps = "serverPIDs w"
  from stopAllServers_unfold [OF False, of ops] obtain w3 where
    s: "stopAllServers ops w
          = logmsg Info (stopped_msg (length ?ps) (length (serverPIDs (foldl (verify_pid ops) w3 ?ps))))
              (foldl (verify_pid ops) w3 ?ps)"
    and w3: "w3 = foldl (\<lambda>v p. terminateProcessTree ops p True v)
                      (sleep ops 2000
                        (foldl (\<lambda>v p. terminateProcessTree ops p False v)
                           (logmsg Info ''Stopping all servers...'' w) ?ps)) ?ps"
    by blast
  let ?w4 = "foldl (verify_pid ops) w3 ?ps"
  have "step controller_action w w3" unfolding w3 by (rule step_stop_prefix)
  then obtain t3 where t3: "trace w3 = trace w @ t3" and sub3: "set (serverPIDs w3) \<subseteq> set ?ps"
    and left: "\<forall>p\<in>set ?ps. p \<notin> set (serverPIDs w3) \<longrightarrow> ACloseEvent p \<in> set t3"
    unfolding step_def by blast
  obtain u where u: "trace ?w4 = trace w3 @ u"
    "\<forall>q\<in>set (serverPIDs ?w4). q \<in> set ?ps \<longrightarrow> ALog Warn (still_running_msg q) \<in> set u"
    using verify_loop_warned [of ops w3 ?ps] by blast
  have p4: "set (serverPIDs ?w4) = {q \<in> set (serverPIDs w3). q \<in> set ?ps \<longrightarrow> kill0 ops (os w3) q}"
    by (rule verify_loop_pids)
  have o: "os (stopAllServers ops w) = os w3" by (simp add: s)
  have p: "serverPIDs (stopAllServers ops w) = serverPIDs ?w4"
    by (simp add: s logmsg_def emit_def)
  let ?m = "ALog Info (stopped_msg (length ?ps) (length (serverPIDs ?w4)))"
  have tr: "trace (stopAllServers ops w) = trace w @ (t3 @ u @ [?m])"
    using t3 u(1) by (simp add: s logmsg_def emit_def)
  have a: "\<forall>q\<in>set (serverPIDs ?w4).
             q \<in> set ?ps \<and> kill0 ops (os w3) q
             \<and> ALog Warn (still_running_msg q) \<in> set (t3 @ u @ [?m])"
    using u(2) sub3 p4 by auto
  have b: "\<forall>q\<in>set ?ps. kill0 ops (os w3) q \<longrightarrow>
             q \<in> set (serverPIDs ?w4) \<or> ACloseEvent q \<in> set (t3 @ u @ [?m])"
    using left p4 by auto
  show ?thesis
    unfolding o p using tr a b by blast
qed

subsection \<open>The default port\<close>

lemma probes_append: "probes (t @ u) = probes t @ probes u"
  by (induction t rule: probes.induct) simp_all

lemma probes_controller: "list_all controller_action t \<Longrightarrow> probes t = []"
  by (induction t rule: probes.induct) simp_all

lemma step_portInUse: "step (\<lambda>a. True) w (snd (portInUse ops a host w))"
proof (cases "valid_port a")
  case False
  then show ?thesis by (simp add: portInUse_invalid step_refl)
next
  case True
  obtain ev evs s where c: "connect ops (os w) a host probe_timeout = (ev, evs, s)"
    by (cases "connect ops (os w) a host probe_timeout")
  let ?w1 = "emit (AConnect a host (resolved ev)) (w\<lparr>os := s\<rparr>)"
  have "step (\<lambda>a. True) w ?w1" by (rule step_trans [OF step_os step_emit]) simp
  moreover have "step (\<lambda>a. True) ?w1 (deliver evs ?w1)"
    by (rule step_mono [OF step_deliver]) simp
  ultimately show ?thesis
    using portInUse_valid [OF True c] by (simp add: step_trans)
qed

lemma portInUse_trace:
  assumes "valid_port a"
  shows "\<exists>b r u. fst (portInUse ops a host w) = Inr b
           \<and> trace (snd (portInUse ops a host w)) = trace w @ AConnect a host r # u"
proof -
  obtain ev evs s where c: "connect ops (os w) a host probe_timeout = (ev, evs, s)"
    by (cases "connect ops (os w) a host probe_timeout")
  from deliver_trace [of evs "emit (AConnect a host (resolved ev)) (w\<lparr>os := s\<rparr>)"]
  show ?thesis
    using portInUse_valid [OF assms c] by (auto simp: emit_def)
qed

lemma step_scanPorts: "step (\<lambda>a. True) w (snd (scanPorts ops host d a w))"
proof (induction ops host d a w rule: scanPorts.induct)
  case (1 ops host d a w)
  obtain probed w1 where p: "portInUse ops a host w = (probed, w1)"
    by (cases "portInUse ops a host w")
  have s1: "step (\<lambda>a. True) w w1" using step_portInUse [of w ops a host] p by simp
  let ?w2 = "logmsg Info (in_use_msg (a + 1)) w1"
  have s2: "step (\<lambda>a. True) w ?w2" by (rule step_trans [OF s1 step_logmsg]) simp
  show ?case
  proof (cases probed)
    case (Inl e)
    with p s1 show ?thesis by (simp add: scanPorts_thrown)
  next
    case (Inr inUse)
    show ?thesis
    proof (cases inUse)
      case False
      with p Inr s1 show ?thesis by (simp add: scanPorts_free_here)
    next
      case True
      with p Inr have q: "portInUse ops a host w = (Inr True, w1)" by simp
      show ?thesis
      proof (cases "a + 1 > d + 100")
        case over: True
        with s2 show ?thesis by (simp add: scanPorts_busy_last [OF q])
      next
        case False
        have "step (\<lambda>a. True) ?w2 (snd (scanPorts ops host d (a + 1) ?w2))"
          using "1.IH" [OF refl q [symmetric] refl _ refl False] by simp
        from step_trans [OF s2 this] show ?thesis
          by (simp add: scanPorts_busy_next [OF q False])
      qed
    qed
  qed
qed

lemma scanPorts_first_action:
  assumes "valid_port a"
  shows "\<exists>r u. trace (snd (scanPorts ops host d a w)) = trace w @ AConnect a host r # u"
proof -
  obtain probed w1 where p: "portInUse ops a host w = (probed, w1)"
    by (cases "portInUse ops a host w")
  obtain b r u where b: "probed = Inr b" and t1: "trace w1 = trace w @ AConnect a host r # u"
    using portInUse_trace [OF assms, of ops host w] p by auto
  let ?w2 = "logmsg Info (in_use_msg (a + 1)) w1"
  have t2: "trace ?w2 = trace w @ AConnect a host r # (u @ [ALog Info (in_use_msg (a + 1))])"
    using t1 by (simp add: logmsg_def emit_def)
  obtain v where "trace (snd (scanPorts ops host d (a + 1) ?w2)) = trace ?w2 @ v"
    using step_scanPorts [of ?w2 ops host d "a + 1"] unfolding step_def by blast
  then have t3: "trace (snd (scanPorts ops host d (a + 1) ?w2))
                   = trace w @ AConnect a host r # (u @ [ALog Info (in_use_msg (a + 1))] @ v)"
    using t2 by simp
  show ?thesis
    using p b t1 t2 t3
    by (cases b; cases "a + 1 > d + 100")
       (simp_all add: scanPorts.simps [of ops host d a w] Let_def)
qed

lemma launch_trace: "\<exists>u. trace (snd (launch ops expose host args a w)) = trace w @ u"
  by (cases "spawn ops (os w) (pythonPath ops) (args @ [''--port'', show_int a])")
     (auto simp: launch_def Let_def logmsg_def emit_def register_child_def split: option.splits)

lemma desired_port_falsy:
  "desired_port PNull = 8080" "desired_port PUndefined = 8080" "desired_port (PNum 0) = 8080"
  by (simp_all add: desired_port_def)

lemma startServer_desired_port:
  assumes "desired_port prt = desired_port prt'"
  shows "startServer ops expose prt w = startServer ops expose prt' w"
  unfolding startServer_def assms by (rule refl)

lemma startServer_first_probe:
  assumes v: "valid_port (desired_port prt)"
  shows "\<exists>t. trace (snd (startServer ops expose prt w)) = trace w @ t
       \<and> first_probe t
           = (if scan_reached ops w then Some (desired_port prt, bind_host expose) else None)"
proof -
  let ?w1 = "stopAllServers ops w"
  let ?host = "bind_host expose"
  let ?d = "desired_port prt"
  let ?args = "[''-m'', ''uv'', ''run'', ''open-webui'', ''serve'', ''--host'', ?host]"
  obtain t1 where t1: "trace ?w1 = trace w @ t1" "list_all controller_action t1"
    using stop_step_stopAllServers [of w ops] unfolding stop_step_def by blast
  have p1: "probes t1 = []" by (rule probes_controller [OF t1(2)])
  let ?w2 = "logmsg Info (''Using Python at: '' @ pythonPath ops) ?w1"
  obtain failure s where pe: "prepareEnv ops (os ?w1) = (failure, s)"
    by (cases "prepareEnv ops (os ?w1)")
  let ?w3 = "?w2\<lparr>os := s\<rparr>"
  let ?w4 = "logmsg Info (''Checking port availability starting from '' @ show_int ?d @ ''...'') ?w3"
  show ?thesis
  proof (cases "scan_reached ops w")
    case False
    then have "trace (snd (startServer ops expose prt w)) = trace w @ t1
               \<or> trace (snd (startServer ops expose prt w))
                   = trace w @ (t1 @ [ALog Info (''Using Python at: '' @ pythonPath ops)])"
      using pe t1(1)
      by (auto simp: startServer_def scan_reached_def Let_def logmsg_def emit_def
            split: option.splits)
    moreover have "first_probe t1 = None"
      and "first_probe (t1 @ [ALog Info (''Using Python at: '' @ pythonPath ops)]) = None"
      using p1 by (simp_all add: first_probe_def probes_append)
    ultimately show ?thesis using False by auto
  next
    case True
    then have py: "pythonInstalled ops (os ?w1)" and pk: "packageInstalled ops (os ?w1)"
      and f: "failure = None"
      using pe by (simp_all add: scan_reached_def)
    obtain res w5 where sc: "scanPorts ops ?host ?d ?d ?w4 = (res, w5)"
      by (cases "scanPorts ops ?host ?d ?d ?w4")
    obtain r u where t5: "trace w5 = trace ?w4 @ AConnect ?d ?host r # u"
      using scanPorts_first_action [OF v, of ops ?host ?d ?w4] sc by auto
    have t4: "trace ?w4 = trace w @ (t1 @ [ALog Info (''Using Python at: '' @ pythonPath ops),
                ALog Info (''Checking port availability starting from '' @ show_int ?d @ ''...'')])"
      using t1(1) by (simp add: logmsg_def emit_def)
    let ?pre = "t1 @ [ALog Info (''Using Python at: '' @ pythonPath ops),
                ALog Info (''Checking port availability starting from '' @ show_int ?d @ ''...'')]"
    have pp: "probes ?pre = []" using p1 by (simp add: probes_append)
    have "\<exists>v. trace (snd (startServer ops expose prt w)) = trace w5 @ v"
    proof (cases res)
      case (Inl e)
      then have "snd (startServer ops expose prt w) = w5"
        using py pk pe f sc by (simp add: startServer_def Let_def)
      then show ?thesis by simp
    next
      case (Inr availablePort)
      then have "snd (startServer ops expose prt w) = snd (launch ops expose ?host ?args availablePort w5)"
        using py pk pe f sc by (simp add: startServer_def Let_def)
      then show ?thesis using launch_trace [of ops expose ?host ?args availablePort w5] by simp
    qed
    then obtain v where "trace (snd (startServer ops expose prt w)) = trace w5 @ v" by blast
    then have tr: "trace (snd (startServer ops expose prt w))
                     = trace w @ (?pre @ AConnect ?d ?host r # (u @ v))"
      using t5 t4 by simp
    have "first_probe (?pre @ AConnect ?d ?host r # (u @ v)) = Some (?d, ?host)"
      using pp by (simp add: first_probe_def probes_append)
    with tr True show ?thesis by (metis (no_types, lifting))
  qed
qed


text \<open>
  Claim C10. \<^verbatim>\<open>startServer\<close> treats the port arguments \<^verbatim>\<open>null\<close>, \<^verbatim>\<open>undefined\<close> and
  \<open>0\<close> alike: each behaves as the argument 8080 does, for every expose flag
  and in every state. In particular the trace of \<^verbatim>\<open>startServer(expose, 0)\<close>
  has as its first port probe the one of port 8080 on the bind host, provided
  the call gets as far as the port scan; otherwise it probes no port at all.
\<close>

theorem startServer_falsy_port_scans_from_8080:
  "startServer ops expose PNull w = startServer ops expose (PNum 8080) w
   \<and> startServer ops expose PUndefined w = startServer ops expose (PNum 8080) w
   \<and> startServer ops expose (PNum 0) w = startServer ops expose (PNum 8080) w
   \<and> (\<exists>t. trace (snd (startServer ops expose (PNum 0) w)) = trace w @ t
          \<and> first_probe t
              = (if scan_reached ops w
                 then Some (8080, if expose then ''0.0.0.0'' else ''127.0.0.1'') else None))"
proof -
  have d: "desired_port (PNum 8080) = 8080" by (simp add: desired_port_def)
  have a: "startServer ops expose PNull w = startServer ops expose (PNum 8080) w"
    by (rule startServer_desired_port) (simp add: desired_port_falsy d)
  have b: "startServer ops expose PUndefined w = startServer ops expose (PNum 8080) w"
    by (rule startServer_desired_port) (simp add: desired_port_falsy d)
  have c: "startServer ops expose (PNum 0) w = startServer ops expose (PNum 8080) w"
    by (rule startServer_desired_port) (simp add: desired_port_falsy d)
  have e: "\<exists>t. trace (snd (startServer ops expose (PNum 0) w)) = trace w @ t
          \<and> first_probe t
              = (if scan_reached ops w
                 then Some (8080, if expose then ''0.0.0.0'' else ''127.0.0.1'') else None)"
    using startServer_first_probe [of "PNum 0" ops expose w]
    unfolding desired_port_falsy bind_host_def by (simp add: valid_port_def)
  from a b c e show ?thesis by (intro conjI)
qed

theorem startServer_falsy_port_scans_from_8080_witness:
  "scan_reached (sim_ops NotWin32 True True [8080]) (fresh_world quiet)
   \<and> first_probe (trace (snd (startServer (sim_ops NotWin32 True True [8080]) False (PNum 0)
                                (fresh_world quiet))))
       = Some (8080, ''127.0.0.1'')"
proof -
  have r: "scan_reached (sim_ops NotWin32 True True [8080]) (fresh_world quiet)"
    by (simp add: scan_reached_def stopAllServers_idle fresh_world_def sim_ops_def)
  have e: "trace (fresh_world quiet) = []" by (simp add: fresh_world_def)
  from startServer_falsy_port_scans_from_8080
         [of "sim_ops NotWin32 True True [8080]" False "fresh_world quiet",
          THEN conjunct2, THEN conjunct2, THEN conjunct2] r
  show ?thesis by (auto simp: e)
qed

subsection \<open>Removal from the set of tracked pids\<close>

lemma justified_refl: "justified w w"
  by (simp add: justified_def)

lemma justified_trans:
  assumes "justified w w'" and "justified w' w''"
  shows "justified w w''"
proof -
  from assms(1) obtain t where t: "trace w' = trace w @ t"
    "\<forall>p\<in>set (serverPIDs w). p \<notin> set (serverPIDs w') \<longrightarrow>
        ACloseEvent p \<in> set t \<or> AProbe p False \<in> set t"
    unfolding justified_def by blast
  from assms(2) obtain u where u: "trace w'' = trace w' @ u"
    "\<forall>p\<in>set (serverPIDs w'). p \<notin> set (serverPIDs w'') \<longrightarrow>
        ACloseEvent p \<in> set u \<or> AProbe p False \<in> set u"
    unfolding justified_def by blast
  have "trace w'' = trace w @ (t @ u)" using t(1) u(1) by simp
  moreover have "\<forall>p\<in>set (serverPIDs w). p \<notin> set (serverPIDs w'') \<longrightarrow>
                   ACloseEvent p \<in> set (t @ u) \<or> AProbe p False \<in> set (t @ u)"
    using t(2) u(2) by auto
  ultimately show ?thesis unfolding justified_def by blast
qed

lemma step_justified: "step A w w' \<Longrightarrow> justified w w'"
  unfolding step_def justified_def by blast

lemma stop_step_justified: "stop_step w w' \<Longrightarrow> justified w w'"
  unfolding stop_step_def justified_def by blast

lemma justified_emit: "justified w (emit a w)"
  by (rule step_justified [of "\<lambda>a. True"], rule step_emit) simp

lemma justified_logmsg: "justified w (logmsg l m w)"
  by (simp add: logmsg_def justified_emit)

lemma justified_os: "justified w (w\<lparr>os := s\<rparr>)"
  by (rule step_justified [of "\<lambda>a. True"], rule step_os)

lemma justified_then_emit: "justified w w' \<Longrightarrow> justified w (emit a w')"
  by (rule justified_trans [OF _ justified_emit])

lemma justified_then_logmsg: "justified w w' \<Longrightarrow> justified w (logmsg l m w')"
  by (rule justified_trans [OF _ justified_logmsg])

lemma justified_then_os: "justified w w' \<Longrightarrow> justified w (w'\<lparr>os := s\<rparr>)"
  by (rule justified_trans [OF _ justified_os])

lemma justified_then_deliver: "justified w w' \<Longrightarrow> justified w (deliver evs w')"
  by (rule justified_trans [OF _ step_justified [OF step_deliver]])

text \<open>What \<^verbatim>\<open>launch\<close> does to the set of tracked pids.\<close>

lemma launch_pids:
  "launch ops expose host args a w = (res, w') \<Longrightarrow>
   (\<exists>u. trace w' = trace w @ u)
   \<and> (case res of Inl e \<Rightarrow> serverPIDs w' = serverPIDs w
       | Inr r \<Rightarrow> serverPIDs w' = set_add (res_pid r) (serverPIDs w))"
  by (cases "spawn ops (os w) (pythonPath ops) (args @ [''--port'', show_int a])")
     (auto simp: launch_def Let_def logmsg_def emit_def register_child_def
        split: option.splits if_splits)

lemma justified_launch: "justified w (snd (launch ops expose host args a w))"
proof -
  obtain res w' where l: "launch ops expose host args a w = (res, w')"
    by (cases "launch ops expose host args a w")
  from launch_pids [OF l] have "\<exists>u. trace w' = trace w @ u"
    and "set (serverPIDs w) \<subseteq> set (serverPIDs w')"
    by (auto split: sum.splits)
  then show ?thesis using l unfolding justified_def by auto
qed

text \<open>\<^verbatim>\<open>startServer\<close> is its stop followed by steps that only ever shrink the
  set of tracked pids, and then, on success, by the registration of the new
  pid.\<close>

lemma startServer_decompose:
  "\<exists>w5. step (\<lambda>a. True) (stopAllServers ops w) w5
        \<and> (startServer ops expose prt w = (fst (startServer ops expose prt w), w5)
             \<and> (\<exists>e. fst (startServer ops expose prt w) = Inl e)
            \<or> (\<exists>host args a. startServer ops expose prt w = launch ops expose host args a w5))"
proof -
  let ?w1 = "stopAllServers ops w"
  let ?host = "bind_host expose"
  let ?d = "desired_port prt"
  let ?args = "[''-m'', ''uv'', ''run'', ''open-webui'', ''serve'', ''--host'', ?host]"
  let ?w2 = "logmsg Info (''Using Python at: '' @ pythonPath ops) ?w1"
  obtain failure s where pe: "prepareEnv ops (os ?w1) = (failure, s)"
    by (cases "prepareEnv ops (os ?w1)")
  let ?w3 = "?w2\<lparr>os := s\<rparr>"
  let ?w4 = "logmsg Info (''Checking port availability starting from '' @ show_int ?d @ ''...'') ?w3"
  obtain res w5 where sc: "scanPorts ops ?host ?d ?d ?w4 = (res, w5)"
    by (cases "scanPorts ops ?host ?d ?d ?w4")
  have s3: "step (\<lambda>a. True) ?w1 ?w3"
    by (rule step_trans [OF step_logmsg step_os]) simp
  have s4: "step (\<lambda>a. True) ?w1 ?w4"
    by (rule step_trans [OF s3 step_logmsg]) simp
  have s5: "step (\<lambda>a. True) ?w1 w5"
    using step_trans [OF s4 step_scanPorts [of ?w4 ops ?host ?d ?d]] sc by simp
  consider (nopy) "\<not> pythonInstalled ops (os ?w1)"
    | (nopk) "pythonInstalled ops (os ?w1)" "\<not> packageInstalled ops (os ?w1)"
    | (noenv) msg where "pythonInstalled ops (os ?w1)" "packageInstalled ops (os ?w1)"
        "failure = Some msg"
    | (scan) "pythonInstalled ops (os ?w1)" "packageInstalled ops (os ?w1)" "failure = None"
    by (cases failure) auto
  then show ?thesis
  proof cases
    case nopy
    then have "startServer ops expose prt w = (Inl python_missing, ?w1)"
      by (simp add: startServer_def Let_def)
    then show ?thesis using step_refl [of "\<lambda>a. True" ?w1] by (intro exI [of _ ?w1]) simp
  next
    case nopk
    then have "startServer ops expose prt w = (Inl package_missing, ?w1)"
      by (simp add: startServer_def Let_def)
    then show ?thesis using step_refl [of "\<lambda>a. True" ?w1] by (intro exI [of _ ?w1]) simp
  next
    case noenv
    then have "startServer ops expose prt w = (Inl (Thrown msg), ?w3)"
      using pe by (simp add: startServer_def Let_def)
    then show ?thesis using s3 by (intro exI [of _ ?w3]) simp
  next
    case scan
    show ?thesis
    proof (cases res)
      case (Inl e)
      then have "startServer ops expose prt w = (Inl e, w5)"
        using scan pe sc by (simp add: startServer_def Let_def)
      then show ?thesis using s5 by (intro exI [of _ w5]) simp
    next
      case (Inr a)
      then have "startServer ops expose prt w = launch ops expose ?host ?args a w5"
        using scan pe sc by (simp add: startServer_def Let_def)
      then show ?thesis using s5 by (intro exI [of _ w5]) blast
    qed
  qed
qed

lemma justified_startServer: "justified w (snd (startServer ops expose prt w))"
proof -
  obtain w5 where s5: "step (\<lambda>a. True) (stopAllServers ops w) w5"
    and c: "startServer ops expose prt w = (fst (startServer ops expose prt w), w5)
            \<or> (\<exists>host args a. startServer ops expose prt w = launch ops expose host args a w5)"
    using startServer_decompose [of ops w expose prt] by blast
  have j5: "justified w w5"
    by (rule justified_trans [OF stop_step_justified [OF stop_step_stopAllServers]
          step_justified [OF s5]])
  from c show ?thesis
  proof
    assume "startServer ops expose prt w = (fst (startServer ops expose prt w), w5)"
    then have "snd (startServer ops expose prt w) = w5" by (metis snd_conv)
    with j5 show ?thesis by simp
  next
    assume "\<exists>host args a. startServer ops expose prt w = launch ops expose host args a w5"
    then obtain host args a where "startServer ops expose prt w = launch ops expose host args a w5"
      by blast
    with justified_trans [OF j5 justified_launch [of w5 ops expose host args a]]
    show ?thesis by simp
  qed
qed

lemma justified_stopServerHandler: "justified w (snd (snd (stopServerHandler ops (h, w))))"
proof -
  have 1: "justified w (stopAllServers ops w)"
    by (rule stop_step_justified [OF stop_step_stopAllServers])
  show ?thesis
    using 1 by (simp add: stopServerHandler_def Let_def justified_then_emit)
qed

lemma justified_start_failed:
  "justified w w' \<Longrightarrow> justified w (snd (snd (start_failed msg h w')))"
  by (simp add: start_failed_def Let_def justified_then_emit justified_then_logmsg)

lemma justified_startServerHandler: "justified w (snd (snd (startServerHandler ops (h, w))))"
proof -
  obtain b h1 w1 where sh: "stopServerHandler ops (h, w) = (b, h1, w1)"
    by (cases "stopServerHandler ops (h, w)")
  have j1: "justified w w1" using justified_stopServerHandler [of w ops h] sh by simp
  let ?h2 = "h1\<lparr>SERVER_STATUS := Some ''starting''\<rparr>"
  let ?w2 = "emit (ASend ''status:server'' ''starting'') w1"
  obtain cfg evs s where rc: "readConfig ops (os ?w2) = (cfg, evs, s)"
    by (cases "readConfig ops (os ?w2)")
  let ?w3 = "deliver evs (?w2\<lparr>os := s\<rparr>)"
  have j3: "justified w ?w3"
    by (intro justified_then_deliver justified_then_os justified_then_emit) (rule j1)
  show ?thesis
  proof (cases cfg)
    case (Inl msg)
    then have "startServerHandler ops (h, w) = start_failed msg ?h2 ?w3"
      using sh rc by (simp add: startServerHandler_def Let_def)
    with justified_start_failed [OF j3] show ?thesis by simp
  next
    case (Inr c)
    obtain res w4 where st: "startServer ops (config_expose c) (config_port c) ?w3 = (res, w4)"
      by (cases "startServer ops (config_expose c) (config_port c) ?w3")
    have j4: "justified w w4"
      using justified_trans [OF j3 justified_startServer [of ?w3 ops "config_expose c" "config_port c"]]
        st by simp
    show ?thesis
    proof (cases res)
      case (Inl e)
      then have "startServerHandler ops (h, w) = start_failed (render_error ops e) ?h2 w4"
        using sh rc Inr st by (simp add: startServerHandler_def Let_def)
      with justified_start_failed [OF j4] show ?thesis by simp
    next
      case r: (Inr r)
      have "justified w (emit (ASend ''status:server'' ''started'')
              (logmsg Info (''Server started successfully: '' @ res_url r @ '' ''
                            @ show_nat (res_pid r)) (emit (ATray ''Open WebUI: Starting...'') w4)))"
        by (intro justified_then_emit justified_then_logmsg) (rule j4)
      from this show ?thesis
        using sh rc Inr st r by (simp add: startServerHandler_def Let_def)
    qed
  qed
qed


text \<open>
  Claim C4. No operation removes a pid from \<^verbatim>\<open>serverPIDs\<close> unless, during that
  operation and before it returns, the \<^verbatim>\<open>close\<close> listener of a child with that
  pid has run or a liveness check has found the pid dead. This holds for
  \<^verbatim>\<open>stopAllServers\<close>, \<^verbatim>\<open>startServer\<close> and the two handlers (\<open>justified\<close>). The
  requests for termination remove nothing: whatever \<^verbatim>\<open>terminateProcessTree\<close>,
  \<^verbatim>\<open>terminateWindows\<close> and \<^verbatim>\<open>terminateUnix\<close> do, graceful or forceful, a pid
  leaves the set during them only in the \<^verbatim>\<open>close\<close> listener of its child
  (\<open>step\<close>), and the same holds for the delivery of any single child event.
\<close>

theorem pid_removed_only_after_close_or_confirmed_death:
  "justified w (stopAllServers ops w)
   \<and> justified w (snd (startServer ops expose prt w))
   \<and> justified w (snd (snd (stopServerHandler ops (h, w))))
   \<and> justified w (snd (snd (startServerHandler ops (h, w))))
   \<and> step controller_action w (terminateProcessTree ops p force w)
   \<and> step attempt_action w (terminateWindows ops p force w)
   \<and> step attempt_action w (terminateUnix ops p force w)
   \<and> step listener_action w (dispatch w ev)"
  by (intro conjI stop_step_justified [OF stop_step_stopAllServers] justified_startServer
        justified_stopServerHandler justified_startServerHandler step_terminateProcessTree
        step_terminateWindows step_terminateUnix step_dispatch)

theorem pid_removed_only_after_close_or_confirmed_death_witness:
  "100 \<in> set (serverPIDs (snd (startServer (sim_ops NotWin32 True True []) False PNull
                                   (fresh_world quiet))))
   \<and> 100 \<notin> set (serverPIDs (stopAllServers (sim_ops NotWin32 True True [])
                      (snd (startServer (sim_ops NotWin32 True True []) False PNull
                              (fresh_world quiet)))))
   \<and> (\<exists>t. trace (stopAllServers (sim_ops NotWin32 True True [])
                      (snd (startServer (sim_ops NotWin32 True True []) False PNull
                              (fresh_world quiet))))
            = trace (snd (startServer (sim_ops NotWin32 True True []) False PNull
                            (fresh_world quiet))) @ t
          \<and> (ACloseEvent 100 \<in> set t \<or> AProbe 100 False \<in> set t))"
proof -
  let ?ops = "sim_ops NotWin32 True True []"
  let ?w1 = "snd (startServer ?ops False PNull (fresh_world quiet))"
  have fq: "fresh quiet = 100" by (simp add: quiet_def)
  have d: "desired_port PNull = 8080" by (simp add: desired_port_def)
  note f = fresh_start [OF fq d]
  have pids: "serverPIDs ?w1 = [100]" by (rule f(2))
  have o: "os ?w1 = \<lparr>live = [100], deaf = [], fresh = 101, pending = []\<rparr>"
    using f(3) by (simp add: quiet_def)
  have "\<not> kill0 ?ops (os (stopAllServers ?ops ?w1)) 100"
    by (rule sim_stop_kills [OF pids]) (simp add: o)
  then have gone: "100 \<notin> set (serverPIDs (stopAllServers ?ops ?w1))"
    by (rule stopAllServers_dead_forgotten(2) [rotated]) (simp add: pids)
  have "justified ?w1 (stopAllServers ?ops ?w1)"
    using pid_removed_only_after_close_or_confirmed_death [of ?w1 ?ops] by blast
  then have "\<exists>t. trace (stopAllServers ?ops ?w1) = trace ?w1 @ t
                \<and> (ACloseEvent 100 \<in> set t \<or> AProbe 100 False \<in> set t)"
    using pids gone unfolding justified_def by auto
  with pids gone show ?thesis by simp
qed

subsection \<open>Two starts in sequence\<close>

text \<open>After a start that returns, the new pid is tracked; every other tracked
  pid was tracked before and was found alive by the last liveness check of
  the stop; and a pid found alive by that check is still tracked unless its
  \<^verbatim>\<open>close\<close> event was handled in the meantime.\<close>

lemma startServer_members:
  assumes "startServer ops expose prt w = (Inr r, w')"
  shows "res_pid r \<in> set (serverPIDs w')
         \<and> (\<exists>t. trace w' = trace w @ t
                \<and> (\<forall>q\<in>set (serverPIDs w'). q \<noteq> res_pid r \<longrightarrow>
                      q \<in> set (serverPIDs w) \<and> kill0 ops (os (stopAllServers ops w)) q
                      \<and> ALog Warn (still_running_msg q) \<in> set t)
                \<and> (\<forall>q\<in>set (serverPIDs w). kill0 ops (os (stopAllServers ops w)) q \<longrightarrow>
                      q \<in> set (serverPIDs w') \<or> ACloseEvent q \<in> set t))"
proof -
  let ?w1 = "stopAllServers ops w"
  obtain w5 where s5: "step (\<lambda>a. True) ?w1 w5"
    and c: "startServer ops expose prt w = (fst (startServer ops expose prt w), w5)
              \<and> (\<exists>e. fst (startServer ops expose prt w) = Inl e)
            \<or> (\<exists>host args a. startServer ops expose prt w = launch ops expose host args a w5)"
    using startServer_decompose [of ops w expose prt] by blast
  from c assms obtain host args a where l: "launch ops expose host args a w5 = (Inr r, w')"
    by auto
  from launch_pids [OF l] obtain u where u: "trace w' = trace w5 @ u"
    and p': "serverPIDs w' = set_add (res_pid r) (serverPIDs w5)"
    by auto
  from s5 obtain t5 where t5: "trace w5 = trace ?w1 @ t5"
    and sub5: "set (serverPIDs w5) \<subseteq> set (serverPIDs ?w1)"
    and left5: "\<forall>q\<in>set (serverPIDs ?w1). q \<notin> set (serverPIDs w5) \<longrightarrow> ACloseEvent q \<in> set t5"
    unfolding step_def by blast
  obtain t1 where t1: "trace ?w1 = trace w @ t1"
    and surv: "\<forall>q\<in>set (serverPIDs ?w1).
                 q \<in> set (serverPIDs w) \<and> kill0 ops (os ?w1) q
                 \<and> ALog Warn (still_running_msg q) \<in> set t1"
    and kept: "\<forall>q\<in>set (serverPIDs w). kill0 ops (os ?w1) q \<longrightarrow>
                 q \<in> set (serverPIDs ?w1) \<or> ACloseEvent q \<in> set t1"
    using stopAllServers_survivors [of ops w] by blast
  have 1: "trace w' = trace w @ (t1 @ t5 @ u)" using u t5 t1 by simp
  have 2: "\<forall>q\<in>set (serverPIDs w'). q \<noteq> res_pid r \<longrightarrow>
             q \<in> set (serverPIDs w) \<and> kill0 ops (os ?w1) q
             \<and> ALog Warn (still_running_msg q) \<in> set (t1 @ t5 @ u)"
    using p' sub5 surv by auto
  have 3: "\<forall>q\<in>set (serverPIDs w). kill0 ops (os ?w1) q \<longrightarrow>
             q \<in> set (serverPIDs w') \<or> ACloseEvent q \<in> set (t1 @ t5 @ u)"
    using p' left5 kept by auto
  have 4: "res_pid r \<in> set (serverPIDs w')" using p' by simp
  from 1 2 3 4 show ?thesis by blast
qed

text \<open>
  Claim C3 as stated fails. On a fresh module the first start launches
  pid 100, a process that no signal terminates. The second start cannot stop
  it: its stop finds the process alive in the last liveness check and keeps
  the pid; the second launch adds pid 101. Both calls return, and two pids
  are tracked afterwards.
\<close>

theorem two_starts_leave_two_pids:
  "fst (startServer (sim_ops NotWin32 True True []) False PNull (fresh_world (quiet\<lparr>deaf := [100]\<rparr>)))
     = Inr \<lparr>res_url = ''http://127.0.0.1:8080'', res_pid = 100\<rparr>
   \<and> fst (startServer (sim_ops NotWin32 True True []) False PNull
           (snd (startServer (sim_ops NotWin32 True True []) False PNull
                   (fresh_world (quiet\<lparr>deaf := [100]\<rparr>)))))
     = Inr \<lparr>res_url = ''http://127.0.0.1:8080'', res_pid = 101\<rparr>
   \<and> length (serverPIDs
       (snd (startServer (sim_ops NotWin32 True True []) False PNull
          (snd (startServer (sim_ops NotWin32 True True []) False PNull
                  (fresh_world (quiet\<lparr>deaf := [100]\<rparr>)))))))
     = 2"
proof -
  have d: "desired_port PNull = 8080" by (simp add: desired_port_def)
  from deaf_two_starts [OF d] show ?thesis by simp
qed

text \<open>
  Claim C3, as amended. After two calls of \<^verbatim>\<open>startServer\<close> in sequence that
  both return, the pid of each launch is tracked after its call. After the
  second call every tracked pid other than the new one was already tracked
  before the call, and the last liveness check of the stop of that call found
  its process alive (the stop logged it as possibly still running). A pid
  tracked before the second call whose process that check found dead is no
  longer tracked, unless the new process got the same pid. A pid whose
  process that check found alive is still tracked, unless its \<^verbatim>\<open>close\<close> event
  was handled during the call. So the new pid is the only tracked pid when
  the check finds every tracked process dead.
\<close>

theorem two_starts_track_new_pid_and_survivors:
  assumes "startServer ops expose1 prt1 w0 = (Inr r1, w1)"
    and "startServer ops expose2 prt2 w1 = (Inr r2, w2)"
  shows "res_pid r1 \<in> set (serverPIDs w1)
         \<and> res_pid r2 \<in> set (serverPIDs w2)
         \<and> (\<exists>t. trace w2 = trace w1 @ t
                \<and> (\<forall>q\<in>set (serverPIDs w2). q \<noteq> res_pid r2 \<longrightarrow>
                      q \<in> set (serverPIDs w1)
                      \<and> kill0 ops (os (stopAllServers ops w1)) q
                      \<and> ALog Warn (''Process '' @ show_nat q
                                    @ '' may still be running after termination attempts'') \<in> set t)
                \<and> (\<forall>q\<in>set (serverPIDs w1). kill0 ops (os (stopAllServers ops w1)) q \<longrightarrow>
                      q \<in> set (serverPIDs w2) \<or> ACloseEvent q \<in> set t))
         \<and> (\<forall>q\<in>set (serverPIDs w1). \<not> kill0 ops (os (stopAllServers ops w1)) q \<longrightarrow>
                q \<notin> set (serverPIDs w2) \<or> q = res_pid r2)
         \<and> ((\<forall>q\<in>set (serverPIDs w1). \<not> kill0 ops (os (stopAllServers ops w1)) q)
              \<longrightarrow> set (serverPIDs w2) = {res_pid r2})"
proof -
  from startServer_members [OF assms(1)] have a: "res_pid r1 \<in> set (serverPIDs w1)" by blast
  from startServer_members [OF assms(2)] obtain t where b: "res_pid r2 \<in> set (serverPIDs w2)"
    and t: "trace w2 = trace w1 @ t"
    and m: "\<forall>q\<in>set (serverPIDs w2). q \<noteq> res_pid r2 \<longrightarrow>
              q \<in> set (serverPIDs w1) \<and> kill0 ops (os (stopAllServers ops w1)) q
              \<and> ALog Warn (still_running_msg q) \<in> set t"
    and k: "\<forall>q\<in>set (serverPIDs w1). kill0 ops (os (stopAllServers ops w1)) q \<longrightarrow>
              q \<in> set (serverPIDs w2) \<or> ACloseEvent q \<in> set t"
    by blast
  have dead: "\<forall>q\<in>set (serverPIDs w1). \<not> kill0 ops (os (stopAllServers ops w1)) q \<longrightarrow>
                q \<notin> set (serverPIDs w2) \<or> q = res_pid r2"
    using m by blast
  have one: "(\<forall>q\<in>set (serverPIDs w1). \<not> kill0 ops (os (stopAllServers ops w1)) q)
               \<longrightarrow> set (serverPIDs w2) = {res_pid r2}"
    using b m by blast
  have ex: "\<exists>t. trace w2 = trace w1 @ t
                \<and> (\<forall>q\<in>set (serverPIDs w2). q \<noteq> res_pid r2 \<longrightarrow>
                      q \<in> set (serverPIDs w1)
                      \<and> kill0 ops (os (stopAllServers ops w1)) q
                      \<and> ALog Warn (''Process '' @ show_nat q
                                    @ '' may still be running after termination attempts'') \<in> set t)
                \<and> (\<forall>q\<in>set (serverPIDs w1). kill0 ops (os (stopAllServers ops w1)) q \<longrightarrow>
                      q \<in> set (serverPIDs w2) \<or> ACloseEvent q \<in> set t)"
    using t m k unfolding still_running_msg_def by blast
  from a b ex dead one show ?thesis by (intro conjI)
qed

theorem two_starts_track_new_pid_and_survivors_witness:
  "set (serverPIDs
       (snd (startServer (sim_ops NotWin32 True True []) False PNull
          (snd (startServer (sim_ops NotWin32 True True []) False PNull (fresh_world quiet))))))
     = {101}
   \<and> kill0 (sim_ops NotWin32 True True [])
       (os (stopAllServers (sim_ops NotWin32 True True [])
              (snd (startServer (sim_ops NotWin32 True True []) False PNull
                      (fresh_world (quiet\<lparr>deaf := [100]\<rparr>)))))) 100
   \<and> (\<exists>t. trace (snd (startServer (sim_ops NotWin32 True True []) False PNull
                   (snd (startServer (sim_ops NotWin32 True True []) False PNull
                           (fresh_world (quiet\<lparr>deaf := [100]\<rparr>))))))
            = trace (snd (startServer (sim_ops NotWin32 True True []) False PNull
                            (fresh_world (quiet\<lparr>deaf := [100]\<rparr>)))) @ t
          \<and> ALog Warn ''Process 100 may still be running after termination attempts'' \<in> set t)"
proof -
  let ?ops = "sim_ops NotWin32 True True []"
  let ?r1 = "\<lparr>res_url = ''http://127.0.0.1:8080'', res_pid = 100\<rparr>"
  let ?r2 = "\<lparr>res_url = ''http://127.0.0.1:8080'', res_pid = 101\<rparr>"
  have d: "desired_port PNull = 8080" by (simp add: desired_port_def)
  have healthy: "set (serverPIDs (snd (startServer ?ops False PNull
                    (snd (startServer ?ops False PNull (fresh_world quiet)))))) = {101}"
  proof -
    let ?w0 = "fresh_world quiet"
    let ?w1 = "snd (startServer ?ops False PNull ?w0)"
    let ?w2 = "snd (startServer ?ops False PNull ?w1)"
    note h = healthy_two_starts [OF d]
    have 1: "startServer ?ops False PNull ?w0 = (Inr ?r1, ?w1)"
      using h [THEN conjunct1] by (metis prod.collapse)
    have 2: "startServer ?ops False PNull ?w1 = (Inr ?r2, ?w2)"
      using h [THEN conjunct2, THEN conjunct1] by (metis prod.collapse)
    have p1: "serverPIDs ?w1 = [100]" using h by blast
    have k: "\<not> kill0 ?ops (os (stopAllServers ?ops ?w1)) 100" using h by blast
    have all_dead: "\<forall>q\<in>set (serverPIDs ?w1). \<not> kill0 ?ops (os (stopAllServers ?ops ?w1)) q"
      unfolding p1 using k by simp
    have "(\<forall>q\<in>set (serverPIDs ?w1). \<not> kill0 ?ops (os (stopAllServers ?ops ?w1)) q)
            \<longrightarrow> set (serverPIDs ?w2) = {res_pid ?r2}"
      using two_starts_track_new_pid_and_survivors [OF 1 2] by blast
    with all_dead have "set (serverPIDs ?w2) = {res_pid ?r2}" by blast
    then show ?thesis by simp
  qed
  have deaf: "kill0 ?ops (os (stopAllServers ?ops
                  (snd (startServer ?ops False PNull (fresh_world (quiet\<lparr>deaf := [100]\<rparr>)))))) 100
      \<and> (\<exists>t. trace (snd (startServer ?ops False PNull
                   (snd (startServer ?ops False PNull (fresh_world (quiet\<lparr>deaf := [100]\<rparr>))))))
            = trace (snd (startServer ?ops False PNull (fresh_world (quiet\<lparr>deaf := [100]\<rparr>)))) @ t
          \<and> ALog Warn ''Process 100 may still be running after termination attempts'' \<in> set t)"
  proof -
    let ?w0 = "fresh_world (quiet\<lparr>deaf := [100]\<rparr>)"
    let ?w1 = "snd (startServer ?ops False PNull ?w0)"
    let ?w2 = "snd (startServer ?ops False PNull ?w1)"
    note h = deaf_two_starts [OF d]
    have 1: "startServer ?ops False PNull ?w0 = (Inr ?r1, ?w1)"
      using h [THEN conjunct1] by (metis prod.collapse)
    have 2: "startServer ?ops False PNull ?w1 = (Inr ?r2, ?w2)"
      using h [THEN conjunct2, THEN conjunct1] by (metis prod.collapse)
    have 3: "serverPIDs ?w2 = [100, 101]" using h by blast
    from two_starts_track_new_pid_and_survivors [OF 1 2] obtain t where
      t: "trace ?w2 = trace ?w1 @ t"
      and m: "\<forall>q\<in>set (serverPIDs ?w2). q \<noteq> res_pid ?r2 \<longrightarrow>
                q \<in> set (serverPIDs ?w1)
                \<and> kill0 ?ops (os (stopAllServers ?ops ?w1)) q
                \<and> ALog Warn (''Process '' @ show_nat q
                              @ '' may still be running after termination attempts'') \<in> set t"
      by blast
    have "kill0 ?ops (os (stopAllServers ?ops ?w1)) 100
          \<and> ALog Warn (''Process '' @ show_nat 100
                        @ '' may still be running after termination attempts'') \<in> set t"
      using m 3 by simp
    then have "kill0 ?ops (os (stopAllServers ?ops ?w1)) 100"
      and "ALog Warn ''Process 100 may still be running after termination attempts'' \<in> set t"
      by (simp_all add: show_nat_100)
    with t show ?thesis by blast
  qed
  from healthy deaf show ?thesis by (rule conjI)
qed

end
